theory Spec2Isabelle
  imports Complex_Main
begin

section \<open>JavaScript numbers\<close>

text \<open>
  A JavaScript \<^verbatim>\<open>number\<close> is an IEEE 754 binary64 value: \<^verbatim>\<open>NaN\<close>, \<^verbatim>\<open>Infinity\<close>,
  \<^verbatim>\<open>-Infinity\<close>, the negative zero, or a finite value, which \<open>Fin\<close> holds as the real
  number it denotes (\<open>Fin 0\<close> is the positive zero). Every arithmetic operation computes
  the exact result and rounds it to binary64 with \<open>fl\<close>: to the nearest value of the
  format, to the one with the even last bit when two are equally near, to an infinity
  when the rounded value needs an exponent above 1023, and to a zero with the sign of the
  exact result when it rounds to nothing.
\<close>

datatype jsnum = NaN | PInf | NInf | NZero | Fin real

fun isNaN :: "jsnum \<Rightarrow> bool" where
  "isNaN NaN = True"
| "isNaN _ = False"

fun is_inf :: "jsnum \<Rightarrow> bool" where
  "is_inf PInf = True"
| "is_inf NInf = True"
| "is_inf _ = False"

fun is_zero :: "jsnum \<Rightarrow> bool" where
  "is_zero NZero = True"
| "is_zero (Fin a) = (a = 0)"
| "is_zero _ = False"

text \<open>The sign bit, and the real value of a finite number.\<close>

fun neg :: "jsnum \<Rightarrow> bool" where
  "neg NInf = True"
| "neg NZero = True"
| "neg (Fin a) = (a < 0)"
| "neg _ = False"

fun val :: "jsnum \<Rightarrow> real" where
  "val (Fin a) = a"
| "val _ = 0"

definition zero_of :: "bool \<Rightarrow> jsnum" where
  "zero_of negative = (if negative then NZero else Fin 0)"

definition inf_of :: "bool \<Rightarrow> jsnum" where
  "inf_of negative = (if negative then NInf else PInf)"

text \<open>
  The binary exponent of a real, kept within the format's range: the largest \<open>e\<close> from
  \<open>-1022\<close> to \<open>1023\<close> with \<open>2^e \<le> |x|\<close>, and \<open>-1022\<close> below that (the subnormal
  numbers). It is found by counting down from 1023.
\<close>

fun expo_down :: "nat \<Rightarrow> int \<Rightarrow> real \<Rightarrow> int" where
  "expo_down 0 e x = e"
| "expo_down (Suc n) e x = (if 2 powi e \<le> x then e else expo_down n (e - 1) x)"

definition expo :: "real \<Rightarrow> int" where
  "expo x = expo_down 2045 1023 \<bar>x\<bar>"

text \<open>Rounding to the nearest integer, to the even one when two are equally near.\<close>

definition rne :: "real \<Rightarrow> int" where
  "rne m =
     (let f = \<lfloor>m\<rfloor>
      in if m - of_int f < 1 / 2 then f
         else if 1 / 2 < m - of_int f then f + 1
         else if even f then f else f + 1)"

text \<open>
  Rounding a real to binary64: the values of the format near \<open>x\<close> are the multiples of
  \<open>2^(expo x - 52)\<close> (53 significant bits).
\<close>

definition fl :: "real \<Rightarrow> jsnum" where
  "fl x =
     (let q = 2 powi (expo x - 52);
          r = of_int (rne (\<bar>x\<bar> / q)) * q
      in if 2 powi 1024 \<le> r then inf_of (x < 0)
         else if r = 0 then zero_of (x < 0)
         else Fin (if x < 0 then - r else r))"

definition unit_roundoff :: real where
  "unit_roundoff = 2 powi (- 53)"

text \<open>
  Negation, \<^verbatim>\<open>+\<close>, \<^verbatim>\<open>-\<close>, \<^verbatim>\<open>*\<close> and \<^verbatim>\<open>/\<close>. A sum that is exactly zero is the negative
  zero only when both operands are; a zero product or quotient and an infinite one have
  the sign of the operands' signs combined.
\<close>

fun js_neg :: "jsnum \<Rightarrow> jsnum" where
  "js_neg NaN = NaN"
| "js_neg PInf = NInf"
| "js_neg NInf = PInf"
| "js_neg NZero = Fin 0"
| "js_neg (Fin a) = (if a = 0 then NZero else Fin (- a))"

definition js_add :: "jsnum \<Rightarrow> jsnum \<Rightarrow> jsnum" where
  "js_add x y =
     (if isNaN x \<or> isNaN y then NaN
      else if is_inf x then (if is_inf y \<and> x \<noteq> y then NaN else x)
      else if is_inf y then y
      else if val x + val y = 0 then (if neg x \<and> neg y then NZero else Fin 0)
      else fl (val x + val y))"

definition js_sub :: "jsnum \<Rightarrow> jsnum \<Rightarrow> jsnum" where
  "js_sub x y = js_add x (js_neg y)"

definition js_mul :: "jsnum \<Rightarrow> jsnum \<Rightarrow> jsnum" where
  "js_mul x y =
     (if isNaN x \<or> isNaN y then NaN
      else if is_inf x \<or> is_inf y
           then (if is_zero x \<or> is_zero y then NaN else inf_of (neg x \<noteq> neg y))
      else if is_zero x \<or> is_zero y then zero_of (neg x \<noteq> neg y)
      else fl (val x * val y))"

definition js_div :: "jsnum \<Rightarrow> jsnum \<Rightarrow> jsnum" where
  "js_div x y =
     (if isNaN x \<or> isNaN y then NaN
      else if is_inf x then (if is_inf y then NaN else inf_of (neg x \<noteq> neg y))
      else if is_inf y then zero_of (neg x \<noteq> neg y)
      else if is_zero y then (if is_zero x then NaN else inf_of (neg x \<noteq> neg y))
      else if is_zero x then zero_of (neg x \<noteq> neg y)
      else fl (val x / val y))"

text \<open>
  The comparisons \<^verbatim>\<open><\<close> and \<^verbatim>\<open><=\<close>; every comparison with \<^verbatim>\<open>NaN\<close> is false, and the two
  zeros are equal.
\<close>

definition js_lt :: "jsnum \<Rightarrow> jsnum \<Rightarrow> bool" where
  "js_lt x y =
     (if isNaN x \<or> isNaN y then False
      else if is_inf x \<or> is_inf y
           then (x = NInf \<and> y \<noteq> NInf) \<or> (y = PInf \<and> x \<noteq> PInf)
      else val x < val y)"

definition js_le :: "jsnum \<Rightarrow> jsnum \<Rightarrow> bool" where
  "js_le x y =
     (if isNaN x \<or> isNaN y then False
      else if is_inf x \<or> is_inf y then x = NInf \<or> y = PInf
      else val x \<le> val y)"

definition js_gt :: "jsnum \<Rightarrow> jsnum \<Rightarrow> bool" where
  "js_gt x y = js_lt y x"

definition js_ge :: "jsnum \<Rightarrow> jsnum \<Rightarrow> bool" where
  "js_ge x y = js_le y x"

text \<open>
  \<^verbatim>\<open>Math.max(a, b)\<close>: \<^verbatim>\<open>NaN\<close> when an argument is, the larger argument otherwise, and
  the positive zero of two zeros unless both are negative.
\<close>

definition Math_max :: "jsnum \<Rightarrow> jsnum \<Rightarrow> jsnum" where
  "Math_max a b =
     (if isNaN a \<or> isNaN b then NaN
      else if js_lt a b then b
      else if js_lt b a then a
      else if a = NZero then b else a)"

text \<open>
  \<^verbatim>\<open>Number(x.toFixed(k))\<close> and \<^verbatim>\<open>parseFloat(x.toFixed(k))\<close>. \<^verbatim>\<open>toFixed\<close> works on the exact
  value of the binary64 number \<open>x\<close>: it writes the integer \<open>n\<close> for which \<open>n / 10^k\<close> is
  closest to \<open>|x|\<close>, the larger one of two, under the sign of \<open>x\<close> (\<open>round_dp\<close> is that
  decimal); from \<open>10^21\<close> on, and for the special values, it writes the number itself.
  Reading the text back rounds the decimal to binary64; the text of a negative \<open>x\<close> that
  rounds to nothing reads as the negative zero, and the negative zero is written without
  its sign.
\<close>

definition round_dp :: "nat \<Rightarrow> real \<Rightarrow> real" where
  "round_dp k x =
     (if 10 ^ 21 \<le> \<bar>x\<bar> then x
      else if x < 0 then - (of_int \<lfloor>(- x) * 10 ^ k + 1 / 2\<rfloor> / 10 ^ k)
      else of_int \<lfloor>x * 10 ^ k + 1 / 2\<rfloor> / 10 ^ k)"

fun toFixed_num :: "nat \<Rightarrow> jsnum \<Rightarrow> jsnum" where
  "toFixed_num k (Fin x) =
     (if 10 ^ 21 \<le> \<bar>x\<bar> then Fin x
      else if round_dp k x = 0 then zero_of (x < 0)
      else fl (round_dp k x))"
| "toFixed_num k NZero = Fin 0"
| "toFixed_num k x = x"

text \<open>
  The classes of values the proofs below follow through the arithmetic: not negative
  (a positive zero counts), and not positive.
\<close>

definition nonneg_num :: "jsnum \<Rightarrow> bool" where
  "nonneg_num x = (x = PInf \<or> (\<exists>r. x = Fin r \<and> 0 \<le> r))"

definition nonpos_num :: "jsnum \<Rightarrow> bool" where
  "nonpos_num x = (x = NInf \<or> x = NZero \<or> (\<exists>r. x = Fin r \<and> r \<le> 0))"

section \<open>The savings calculator\<close>

record FuelData =
  priceOnRoad :: jsnum
  priceOffRoad :: jsnum
  litersToRefuel :: jsnum
  consumptionKmL :: jsnum

record CalculationResult =
  savingsEuro :: jsnum
  extraKms :: jsnum
  maxOneWayDistance :: jsnum
  costPerKm :: jsnum

definition calculateSavings :: "FuelData \<Rightarrow> CalculationResult" where
  "calculateSavings d =
     (let savings = js_mul (js_sub (priceOnRoad d) (priceOffRoad d)) (litersToRefuel d);
          cost = js_div (priceOffRoad d) (consumptionKmL d);
          extra = js_div savings cost;
          oneWay = js_div extra (Fin 2)
      in \<lparr> savingsEuro = Math_max (Fin 0) savings,
           extraKms = Math_max (Fin 0) extra,
           maxOneWayDistance = Math_max (Fin 0) oneWay,
           costPerKm = cost \<rparr>)"

section \<open>The application state, validation and updates\<close>

text \<open>
  \<^verbatim>\<open>keyof FuelData\<close> is a datatype, and \<^verbatim>\<open>ValidationErrors\<close>, an object with an optional
  message for each field, is a map. \<^verbatim>\<open>App\<close> holds both in React state.
\<close>

datatype field = PriceOnRoad | PriceOffRoad | LitersToRefuel | ConsumptionKmL

type_synonym ValidationErrors = "field \<Rightarrow> string option"

record AppState =
  fuelData :: FuelData
  errors :: ValidationErrors

definition initialState :: AppState where
  "initialState =
     \<lparr> fuelData = \<lparr> priceOnRoad = fl 1.699, priceOffRoad = fl 1.599,
                      litersToRefuel = Fin 25, consumptionKmL = Fin 18 \<rparr>,
       errors = Map.empty \<rparr>"

fun setField :: "FuelData \<Rightarrow> field \<Rightarrow> jsnum \<Rightarrow> FuelData" where
  "setField d PriceOnRoad v = d\<lparr>priceOnRoad := v\<rparr>"
| "setField d PriceOffRoad v = d\<lparr>priceOffRoad := v\<rparr>"
| "setField d LitersToRefuel v = d\<lparr>litersToRefuel := v\<rparr>"
| "setField d ConsumptionKmL v = d\<lparr>consumptionKmL := v\<rparr>"

definition hasErrors :: "ValidationErrors \<Rightarrow> bool" where
  "hasErrors errs =
     list_ex (\<lambda>f. case errs f of None \<Rightarrow> False | Some e \<Rightarrow> e \<noteq> [])
       [PriceOnRoad, PriceOffRoad, LitersToRefuel, ConsumptionKmL]"

text \<open>
  \<^verbatim>\<open>validate\<close> computes the message of one field. It reads \<^verbatim>\<open>data.priceOnRoad\<close> from the
  \<^verbatim>\<open>data\<close> of the render that created it, the first argument here. Its parameter is a
  \<^verbatim>\<open>number\<close>, so the test \<^verbatim>\<open>value === null\<close> is never true. Storing the message with
  \<^verbatim>\<open>setErrors\<close> is the caller's step in this model (\<open>setError\<close>).
\<close>

definition validate :: "FuelData \<Rightarrow> field \<Rightarrow> jsnum \<Rightarrow> string" where
  "validate d f v =
     (let error = (if isNaN v then ''Valore non valido''
                   else if js_le v (Fin 0) then ''Deve essere > 0''
                   else [])
      in if f = PriceOffRoad \<and> js_ge v (priceOnRoad d) \<and> js_gt v (Fin 0)
         then ''Deve essere inferiore al prezzo A''
         else error)"

definition setError :: "field \<Rightarrow> string \<Rightarrow> AppState \<Rightarrow> AppState" where
  "setError f e s = s\<lparr>errors := (errors s)(f \<mapsto> e)\<rparr>"

text \<open>
  \<^verbatim>\<open>handleUpdate\<close> runs in an event handler: React queues the updaters given to
  \<^verbatim>\<open>setData\<close> and \<^verbatim>\<open>setErrors\<close> and applies them in order to the state for the next
  render, while the handler's own \<^verbatim>\<open>data\<close> stays the value of the render that created
  it. The argument \<open>s\<close> is that render's state; both calls of \<^verbatim>\<open>validate\<close> and the read
  \<^verbatim>\<open>data.priceOffRoad\<close> use its \<open>fuelData\<close>.
\<close>

definition handleUpdate :: "AppState \<Rightarrow> field \<Rightarrow> jsnum \<Rightarrow> AppState" where
  "handleUpdate s f v =
     (let d = fuelData s;
          s1 = s\<lparr>fuelData := setField (fuelData s) f v\<rparr>;
          s2 = setError f (validate d f v) s1
      in if f = PriceOnRoad
         then setError PriceOffRoad (validate d PriceOffRoad (priceOffRoad d)) s2
         else s2)"

section \<open>Text to number\<close>

definition is_digit :: "char \<Rightarrow> bool" where
  "is_digit c = (c \<in> set ''0123456789'')"

text \<open>White space, as far as one byte holds it.\<close>

definition is_space :: "char \<Rightarrow> bool" where
  "is_space c = (c \<in> set [CHR '' '', CHR 0x09, CHR 0x0A, CHR 0x0B, CHR 0x0C, CHR 0x0D])"

definition digit_val :: "char \<Rightarrow> nat" where
  "digit_val c = of_char c - 48"

definition digits_val :: "string \<Rightarrow> nat" where
  "digits_val ds = foldl (\<lambda>n c. 10 * n + digit_val c) 0 ds"

text \<open>\<^verbatim>\<open>s.replace(a, b)\<close> with a text pattern replaces the first occurrence only.\<close>

fun replace_first :: "char \<Rightarrow> char \<Rightarrow> string \<Rightarrow> string" where
  "replace_first a b [] = []"
| "replace_first a b (c # cs) = (if c = a then b # cs else c # replace_first a b cs)"

definition trim :: "string \<Rightarrow> string" where
  "trim s = rev (dropWhile is_space (rev (dropWhile is_space s)))"

text \<open>
  \<^verbatim>\<open>parseFloat\<close> on the texts its two callers pass, which hold no letter: leading white
  space, a sign, then the longest prefix of digits with at most one dot; \<^verbatim>\<open>NaN\<close> when
  that prefix has no digit. An exponent and the word \<^verbatim>\<open>Infinity\<close> need a letter and are
  left out. The decimal read is rounded to binary64.
\<close>

definition parseFloat :: "string \<Rightarrow> jsnum" where
  "parseFloat s =
     (let s1 = dropWhile is_space s;
          minus = (case s1 of [] \<Rightarrow> False | c # _ \<Rightarrow> c = CHR ''-'');
          s2 = (case s1 of [] \<Rightarrow> []
                | c # r \<Rightarrow> if c = CHR ''-'' \<or> c = CHR ''+'' then r else s1);
          ip = takeWhile is_digit s2;
          r1 = dropWhile is_digit s2;
          fp = (case r1 of [] \<Rightarrow> []
                | c # r \<Rightarrow> if c = CHR ''.'' then takeWhile is_digit r else [])
      in if ip = [] \<and> fp = [] then NaN
         else (let m = real (digits_val ip) + real (digits_val fp) / 10 ^ length fp
               in if m = 0 then zero_of minus else fl (if minus then - m else m)))"

text \<open>
  \<^verbatim>\<open>applyProvincialPrice\<close>: \<^verbatim>\<open>replace(/[^0-9,.]/g, '')\<close> keeps the characters of
  \<open>price_char\<close>. Both state updates are functional updaters, applied to the latest state.
\<close>

definition price_char :: "char \<Rightarrow> bool" where
  "price_char c = (is_digit c \<or> c = CHR '','' \<or> c = CHR ''.'')"

definition cleaned :: "string \<Rightarrow> string" where
  "cleaned priceStr =
     trim (replace_first (CHR '','') (CHR ''.'') (filter price_char priceStr))"

definition applyProvincialPrice :: "AppState \<Rightarrow> string \<Rightarrow> AppState" where
  "applyProvincialPrice s priceStr =
     (let num = parseFloat (cleaned priceStr)
      in if \<not> isNaN num
         then (let s1 = s\<lparr>fuelData := (fuelData s)\<lparr>priceOnRoad := num, priceOffRoad := num\<rparr>\<rparr>
               in s1\<lparr>errors := (errors s1)(PriceOnRoad \<mapsto> [], PriceOffRoad \<mapsto> [])\<rparr>)
         else s)"

section \<open>The chart series\<close>

record ChartPoint =
  totalDist :: jsnum
  netGain :: jsnum

text \<open>
  The \<^verbatim>\<open>for\<close> loop of \<^verbatim>\<open>chartData\<close>, with fuel: the loop need not end (a step of
  \<^verbatim>\<open>Infinity\<close> never passes \<^verbatim>\<open>maxRange\<close>), and \<open>None\<close> is the loop still running when
  the fuel is spent.
\<close>

fun chart_loop :: "nat \<Rightarrow> jsnum \<Rightarrow> jsnum \<Rightarrow> jsnum \<Rightarrow> jsnum \<Rightarrow> ChartPoint list
    \<Rightarrow> ChartPoint list option" where
  "chart_loop 0 d maxRange stepVal breakEvenTotal points = None"
| "chart_loop (Suc n) d maxRange stepVal breakEvenTotal points =
     (if js_le d maxRange
      then (let netKmGain = js_sub breakEvenTotal d
            in chart_loop n (js_add d stepVal) maxRange stepVal breakEvenTotal
                 (points @ [\<lparr> totalDist = toFixed_num 2 d,
                               netGain = toFixed_num 2 netKmGain \<rparr>]))
      else Some points)"

definition chartData :: "nat \<Rightarrow> CalculationResult \<Rightarrow> bool \<Rightarrow> ChartPoint list option" where
  "chartData fuel results hasErr =
     (if hasErr then Some []
      else (let breakEvenTotal = extraKms results;
                maxRange = Math_max (js_mul breakEvenTotal (fl 1.3)) (Fin 5);
                stepVal = js_div maxRange (Fin 100)
            in chart_loop fuel (Fin 0) maxRange stepVal breakEvenTotal []))"

text \<open>
  The distance the loop has accumulated at its \<open>k\<close>-th round, when the step is \<open>st\<close>,
  and the point it makes there.
\<close>

fun acc_dist :: "jsnum \<Rightarrow> nat \<Rightarrow> jsnum" where
  "acc_dist st 0 = Fin 0"
| "acc_dist st (Suc k) = js_add (acc_dist st k) st"

definition chart_point :: "jsnum \<Rightarrow> jsnum \<Rightarrow> nat \<Rightarrow> ChartPoint" where
  "chart_point breakEvenTotal st k =
     \<lparr> totalDist = toFixed_num 2 (acc_dist st k),
       netGain = toFixed_num 2 (js_sub breakEvenTotal (acc_dist st k)) \<rparr>"

section \<open>The numeric input\<close>

text \<open>
  The test of \<^verbatim>\<open>/^-?[0-9]*[.,]?[0-9]*$/\<close>: the four parts accept disjoint characters, so
  matching each part greedily from the left decides the match.
\<close>

definition regex_test :: "string \<Rightarrow> bool" where
  "regex_test s =
     (let s1 = (case s of [] \<Rightarrow> [] | c # r \<Rightarrow> if c = CHR ''-'' then r else s);
          s2 = dropWhile is_digit s1;
          s3 = (case s2 of [] \<Rightarrow> []
                | c # r \<Rightarrow> if c = CHR ''.'' \<or> c = CHR '','' then r else s2);
          s4 = dropWhile is_digit s3
      in s4 = [])"

text \<open>
  \<^verbatim>\<open>handleInputChange\<close> returns the new \<^verbatim>\<open>inputValue\<close> and the argument of its call of
  \<^verbatim>\<open>onChange\<close>, if it makes one.
\<close>

definition handleInputChange :: "string \<Rightarrow> string \<Rightarrow> string \<times> jsnum option" where
  "handleInputChange inputValue original =
     (let normalized = replace_first (CHR '','') (CHR ''.'') original
      in if regex_test original
         then (original,
               (let parsed = parseFloat normalized
                in if \<not> isNaN parsed then Some parsed
                   else if normalized = [] \<or> normalized = ''-'' \<or> normalized = ''.''
                        then Some (Fin 0)
                   else None))
         else (inputValue, None))"

text \<open>
  The pattern \<^verbatim>\<open>-?[0-9]*[.,]?[0-9]*\<close> in the specification's words: an optional minus,
  digits, an optional dot or comma, digits. The code's test is \<open>regex_test\<close>; this
  definition is what it is compared with.
\<close>

definition pattern_spec :: "string \<Rightarrow> bool" where
  "pattern_spec s =
     (\<exists>sg d1 sep d2. s = sg @ d1 @ sep @ d2
        \<and> (sg = [] \<or> sg = ''-'')
        \<and> list_all is_digit d1
        \<and> (sep = [] \<or> sep = ''.'' \<or> sep = '','')
        \<and> list_all is_digit d2)"

section \<open>The press-and-hold controller\<close>

text \<open>
  \<^verbatim>\<open>startAdjusting\<close> and \<^verbatim>\<open>stopAdjusting\<close> work on the two timer references, the value
  reference and the browser's timers. The timers are modelled by a virtual clock in
  milliseconds and the list of pending timeouts, each with its identifier, the time it is
  due and its callback; a timeout fires at the time it is due and its callback takes no
  time. Identifiers are positive, as the browser's are, so a stored identifier is truthy.

  A callback is a closure. The one given to the first \<^verbatim>\<open>setTimeout\<close> holds \<^verbatim>\<open>delta\<close>; \<^verbatim>\<open>run\<close>
  holds \<^verbatim>\<open>delta\<close> and the variables \<^verbatim>\<open>speed\<close> and \<^verbatim>\<open>count\<close>, which only \<^verbatim>\<open>run\<close> itself
  reads and writes, so the pending \<^verbatim>\<open>run\<close> carries their values.

  \<^verbatim>\<open>onChange\<close> hands the new value to the owner, which stores it and passes it back as
  the \<^verbatim>\<open>value\<close> property; the effect then copies it into \<^verbatim>\<open>valueRef\<close> before the next
  timeout fires. The values handed to \<^verbatim>\<open>onChange\<close> are recorded with their times.
\<close>

datatype callback = InitialDelayCb jsnum | RunCb jsnum nat nat

type_synonym timeout = "nat \<times> nat \<times> callback"

record Ctl =
  clock :: nat
  pending :: "timeout list"
  nextId :: nat
  timerRef :: "nat option"
  initialDelayRef :: "nat option"
  valueRef :: jsnum
  emitted :: "(nat \<times> jsnum) list"

definition initCtl :: "jsnum \<Rightarrow> Ctl" where
  "initCtl v = \<lparr> clock = 0, pending = [], nextId = 1, timerRef = None,
                 initialDelayRef = None, valueRef = v, emitted = [] \<rparr>"

definition setTimeout :: "callback \<Rightarrow> nat \<Rightarrow> Ctl \<Rightarrow> nat \<times> Ctl" where
  "setTimeout cb delay s =
     (nextId s, s\<lparr>pending := pending s @ [(nextId s, clock s + delay, cb)],
                  nextId := nextId s + 1\<rparr>)"

definition clearTimeout :: "nat \<Rightarrow> Ctl \<Rightarrow> Ctl" where
  "clearTimeout i s = s\<lparr>pending := filter (\<lambda>t. fst t \<noteq> i) (pending s)\<rparr>"

definition onChange :: "jsnum \<Rightarrow> Ctl \<Rightarrow> Ctl" where
  "onChange v s = s\<lparr>emitted := emitted s @ [(clock s, v)], valueRef := v\<rparr>"

definition stopAdjusting :: "Ctl \<Rightarrow> Ctl" where
  "stopAdjusting s =
     (let s1 = (case timerRef s of None \<Rightarrow> s
                | Some i \<Rightarrow> if i \<noteq> 0 then clearTimeout i s else s);
          s2 = (case initialDelayRef s1 of None \<Rightarrow> s1
                | Some i \<Rightarrow> if i \<noteq> 0 then clearTimeout i s1 else s1)
      in s2\<lparr>timerRef := None, initialDelayRef := None\<rparr>)"

definition performUpdate :: "jsnum \<Rightarrow> Ctl \<Rightarrow> Ctl" where
  "performUpdate d s =
     (let nextVal = Math_max (Fin 0) (toFixed_num 3 (js_add (valueRef s) d))
      in onChange nextVal s)"

definition startAdjusting :: "jsnum \<Rightarrow> Ctl \<Rightarrow> Ctl" where
  "startAdjusting delta s =
     (let s1 = stopAdjusting s;
          s2 = performUpdate delta s1;
          (i, s3) = setTimeout (InitialDelayCb delta) 400 s2
      in s3\<lparr>initialDelayRef := Some i\<rparr>)"

text \<open>The two callbacks: the one of the first timeout, and \<^verbatim>\<open>run\<close>.\<close>

fun callback_body :: "callback \<Rightarrow> Ctl \<Rightarrow> Ctl" where
  "callback_body (InitialDelayCb delta) s =
     (let speed = 80; count = 0;
          (i, s1) = setTimeout (RunCb delta speed count) speed s
      in s1\<lparr>timerRef := Some i\<rparr>)"
| "callback_body (RunCb delta speed count) s =
     (let s1 = performUpdate delta s;
          count1 = count + 1;
          speed1 = (if count1 = 10 then 40 else speed);
          speed2 = (if count1 = 30 then 15 else speed1);
          (i, s2) = setTimeout (RunCb delta speed2 count1) speed2 s1
      in s2\<lparr>timerRef := Some i\<rparr>)"

text \<open>
  The pending timeout that fires next: the earliest due, the one set first among equals.
  Firing moves the clock to the time it is due, takes it off the list and runs its
  callback.
\<close>

fun earliest :: "timeout list \<Rightarrow> timeout option" where
  "earliest [] = None"
| "earliest (t # ts) =
     (case earliest ts of None \<Rightarrow> Some t
      | Some u \<Rightarrow> if fst (snd u) < fst (snd t) then Some u else Some t)"

definition fire :: "timeout \<Rightarrow> Ctl \<Rightarrow> Ctl" where
  "fire t s =
     callback_body (snd (snd t))
       (s\<lparr>clock := max (clock s) (fst (snd t)),
          pending := filter (\<lambda>u. fst u \<noteq> fst t) (pending s)\<rparr>)"

text \<open>
  Letting time pass until \<open>till\<close>: every timeout due by then fires, in order. The fuel
  bounds the number of firings; \<open>None\<close> is fuel spent with a timeout still due.
\<close>

fun advance :: "nat \<Rightarrow> nat \<Rightarrow> Ctl \<Rightarrow> Ctl option" where
  "advance 0 till s = None"
| "advance (Suc n) till s =
     (case earliest (pending s) of
        None \<Rightarrow> Some (s\<lparr>clock := max (clock s) till\<rparr>)
      | Some t \<Rightarrow>
          if fst (snd t) \<le> till then advance n till (fire t s)
          else Some (s\<lparr>clock := max (clock s) till\<rparr>))"

text \<open>
  The states the component can be in: it starts with no timeout; the pointer goes down
  on a stepper button, goes up or leaves it, a timeout fires, the owner changes the
  value out of band, or time passes.
\<close>

inductive reachable :: "Ctl \<Rightarrow> bool" where
  r_init: "reachable (initCtl v)"
| r_press: "reachable s \<Longrightarrow> reachable (startAdjusting delta s)"
| r_release: "reachable s \<Longrightarrow> reachable (stopAdjusting s)"
| r_fire: "reachable s \<Longrightarrow> earliest (pending s) = Some t \<Longrightarrow> reachable (fire t s)"
| r_extern: "reachable s \<Longrightarrow> reachable (s\<lparr>valueRef := v\<rparr>)"
| r_wait: "reachable s \<Longrightarrow> reachable (s\<lparr>clock := max (clock s) t\<rparr>)"

text \<open>
  The value \<^verbatim>\<open>performUpdate\<close> hands to \<^verbatim>\<open>onChange\<close>, as a function of the current value
  and the step.
\<close>

definition next_value :: "jsnum \<Rightarrow> jsnum \<Rightarrow> jsnum" where
  "next_value v d = Math_max (Fin 0) (toFixed_num 3 (js_add v d))"

text \<open>
  The invariant of the two references: at most one timeout is pending, and its identifier
  is held by \<open>timerRef\<close> or \<open>initialDelayRef\<close>.
\<close>

definition tracked :: "Ctl \<Rightarrow> bool" where
  "tracked s =
     (0 < nextId s \<and>
      (pending s = [] \<or>
       (\<exists>i due cb. pending s = [(i, due, cb)] \<and> i \<noteq> 0
          \<and> (timerRef s = Some i \<or> initialDelayRef s = Some i))))"

section \<open>Properties of rounding\<close>

lemma expo_down_spec:
  "e - int n \<le> expo_down n e x \<and> expo_down n e x \<le> e
   \<and> (e - int n < expo_down n e x \<longrightarrow> 2 powi (expo_down n e x) \<le> x)
   \<and> (expo_down n e x < e \<longrightarrow> x < 2 powi (expo_down n e x + 1))"
proof (induction n arbitrary: e)
  case 0
  show ?case by simp
next
  case (Suc n)
  show ?case
  proof (cases "2 powi e \<le> x")
    case True
    then show ?thesis by simp
  next
    case False
    let ?r = "expo_down n (e - 1) x"
    from Suc.IH [of "e - 1"] have ih: "e - 1 - int n \<le> ?r" "?r \<le> e - 1"
      "e - 1 - int n < ?r \<longrightarrow> 2 powi ?r \<le> x"
      "?r < e - 1 \<longrightarrow> x < 2 powi (?r + 1)" by auto
    have up: "x < 2 powi (?r + 1)"
    proof (cases "?r = e - 1")
      case True
      with False show ?thesis by simp
    next
      case False
      with ih show ?thesis by simp
    qed
    from False ih up show ?thesis by simp
  qed
qed

lemma expo_range: "- 1022 \<le> expo x" "expo x \<le> 1023"
  using expo_down_spec [of 1023 2045 "\<bar>x\<bar>"] by (simp_all add: expo_def)

lemma expo_lower: "- 1022 < expo x \<Longrightarrow> 2 powi (expo x) \<le> \<bar>x\<bar>"
  using expo_down_spec [of 1023 2045 "\<bar>x\<bar>"] by (simp add: expo_def)

lemma expo_upper: "expo x < 1023 \<Longrightarrow> \<bar>x\<bar> < 2 powi (expo x + 1)"
  using expo_down_spec [of 1023 2045 "\<bar>x\<bar>"] by (simp add: expo_def)

lemma expo_eq:
  assumes "- 1022 \<le> e" "e \<le> 1023"
    and lo: "e = - 1022 \<or> 2 powi e \<le> \<bar>x\<bar>"
    and hi: "e = 1023 \<or> \<bar>x\<bar> < 2 powi (e + 1)"
  shows "expo x = e"
proof (rule ccontr)
  assume ne: "expo x \<noteq> e"
  show False
  proof (cases "expo x < e")
    case True
    with expo_range [of x] assms have "\<bar>x\<bar> < 2 powi (expo x + 1)" "2 powi e \<le> \<bar>x\<bar>"
      by (auto intro: expo_upper)
    moreover from True have "(2::real) powi (expo x + 1) \<le> 2 powi e"
      by (intro power_int_increasing) simp_all
    ultimately show False by linarith
  next
    case False
    with ne have gt: "e < expo x" by simp
    with expo_range [of x] assms have "2 powi (expo x) \<le> \<bar>x\<bar>" "\<bar>x\<bar> < 2 powi (e + 1)"
      by (auto intro: expo_lower)
    moreover from gt have "(2::real) powi (e + 1) \<le> 2 powi (expo x)"
      by (intro power_int_increasing) simp_all
    ultimately show False by linarith
  qed
qed

lemma rne_near: "\<bar>of_int (rne m) - m\<bar> \<le> 1 / 2"
  unfolding rne_def Let_def by (auto; linarith)

lemma rne_unique: "\<bar>m - of_int n\<bar> < 1 / 2 \<Longrightarrow> rne m = n"
proof -
  assume h: "\<bar>m - of_int n\<bar> < 1 / 2"
  from rne_near [of m] h have "\<bar>real_of_int (rne m) - of_int n\<bar> < 1" by linarith
  then have "\<bar>real_of_int (rne m - n)\<bar> < 1" by simp
  then have "\<bar>rne m - n\<bar> < 1" by linarith
  then show ?thesis by simp
qed

lemma rne_int [simp]: "rne (of_int n) = n"
  by (rule rne_unique) simp

lemma rne_ge: "of_int n \<le> m \<Longrightarrow> n \<le> rne m"
proof -
  assume "of_int n \<le> m"
  then have "n \<le> \<lfloor>m\<rfloor>" by (simp add: le_floor_iff)
  moreover have "\<lfloor>m\<rfloor> \<le> rne m" by (simp add: rne_def Let_def)
  ultimately show ?thesis by simp
qed

lemma rne_le: "m \<le> of_int n \<Longrightarrow> rne m \<le> n"
proof (cases "m = of_int n")
  case True
  then show ?thesis by simp
next
  case False
  assume "m \<le> of_int n"
  with False have "m < of_int n" by simp
  then have "\<lfloor>m\<rfloor> < n" by (simp add: floor_less_iff)
  moreover have "rne m \<le> \<lfloor>m\<rfloor> + 1" by (simp add: rne_def Let_def)
  ultimately show ?thesis by simp
qed

lemma rne_nonneg: "0 \<le> m \<Longrightarrow> 0 \<le> rne m"
  using rne_ge [of 0 m] by simp

lemma rne_0 [simp]: "rne 0 = 0"
  using rne_int [of 0] by simp

lemma fl_zero [simp]: "fl 0 = Fin 0"
  by (simp add: fl_def zero_of_def Let_def)

lemma expo_minus [simp]: "expo (- x) = expo x"
  by (simp add: expo_def)

lemma fl_minus: "0 < x \<Longrightarrow> fl (- x) = js_neg (fl x)"
  by (simp add: fl_def Let_def inf_of_def zero_of_def)

lemma fl_nonneg:
  assumes "0 \<le> x"
  shows "fl x = PInf \<or> (\<exists>r. fl x = Fin r \<and> 0 \<le> r \<and> r < 2 powi 1024)"
proof -
  let ?q = "2 powi (expo x - 52) :: real"
  let ?r = "of_int (rne (\<bar>x\<bar> / ?q)) * ?q"
  have "0 \<le> \<bar>x\<bar> / ?q" by simp
  then have "0 \<le> rne (\<bar>x\<bar> / ?q)" by (rule rne_nonneg)
  then have "0 \<le> ?r" by simp
  with assms show ?thesis
    by (auto simp: fl_def Let_def inf_of_def zero_of_def not_le)
qed

lemma fl_neg:
  assumes "x < 0"
  shows "fl x = NInf \<or> fl x = NZero \<or> (\<exists>r. fl x = Fin r \<and> r < 0 \<and> - (2 powi 1024) < r)"
proof -
  from assms have "0 \<le> - x" by simp
  from fl_nonneg [OF this] assms fl_minus [of "- x"] show ?thesis
    by (auto split: if_splits)
qed

lemma fl_eq_pos:
  assumes x: "0 < x" and e: "- 1022 \<le> e" "e \<le> 1023"
    and lo: "e = - 1022 \<or> 2 powi e \<le> x" and hi: "x < 2 powi (e + 1)"
    and n: "\<bar>x / 2 powi (e - 52) - of_int n\<bar> < 1 / 2" "0 < n"
    and fin: "of_int n * 2 powi (e - 52) < (2 powi 1024 :: real)"
  shows "fl x = Fin (of_int n * 2 powi (e - 52))"
proof -
  from x e lo hi have ex: "expo x = e" by (intro expo_eq) auto
  from x n(1) have "rne (\<bar>x\<bar> / 2 powi (e - 52)) = n" by (intro rne_unique) simp
  with x n(2) fin show ?thesis
    by (simp add: fl_def Let_def ex not_le)
qed

lemma fl_tiny:
  assumes "0 < x" "x < 2 powi (- 1075)"
  shows "fl x = Fin 0"
proof -
  have "(2::real) powi (- 1075) \<le> 2 powi (- 1022 + 1)"
    by (intro power_int_increasing) simp_all
  with assms have "\<bar>x\<bar> < 2 powi (- 1022 + 1)" by simp
  then have ex: "expo x = - 1022" by (intro expo_eq) simp_all
  have "(2::real) powi (- 1075) = 2 powi (- 1074) * 2 powi (- 1)"
    by (simp flip: power_int_add)
  with assms have "x / 2 powi (- 1074) < 1 / 2"
    by (simp add: field_simps power_int_minus)
  with assms(1) have "\<bar>x / 2 powi (- 1074) - of_int 0\<bar> < 1 / 2" by simp
  then have "rne (x / 2 powi (- 1074)) = 0" by (rule rne_unique)
  with assms(1) show ?thesis
    by (simp add: fl_def Let_def ex zero_of_def)
qed

lemma fl_huge:
  assumes "2 powi 1024 \<le> x"
  shows "fl x = PInf"
proof -
  have p: "(2::real) powi 1023 \<le> 2 powi 1024"
    by (intro power_int_increasing) simp_all
  with assms have x: "0 < x" "2 powi 1023 \<le> \<bar>x\<bar>"
    by (smt (verit) zero_less_power_int)+
  then have ex: "expo x = 1023" by (intro expo_eq) simp_all
  have "(2::real) powi 1024 = 2 powi 53 * 2 powi 971"
    by (simp flip: power_int_add)
  with assms have "of_int (2 ^ 53) \<le> x / 2 powi 971"
    by (simp add: field_simps)
  then have "2 ^ 53 \<le> rne (x / 2 powi 971)" by (rule rne_ge)
  then have "real_of_int (2 ^ 53) \<le> of_int (rne (x / 2 powi 971))"
    by (simp only: of_int_le_iff)
  then have "real_of_int (2 ^ 53) * 2 powi 971 \<le> of_int (rne (x / 2 powi 971)) * 2 powi 971"
    by (intro mult_right_mono) simp_all
  then have "2 powi 1024 \<le> real_of_int (rne (x / 2 powi 971)) * 2 powi 971"
    by (simp flip: power_int_add)
  with x show ?thesis
    by (simp add: fl_def Let_def ex inf_of_def)
qed

lemma fl_normal_round:
  assumes "2 powi (- 1022) \<le> x"
  shows "\<exists>r. x * (1 - unit_roundoff) \<le> r \<and> r \<le> x * (1 + unit_roundoff)
      \<and> fl x = (if 2 powi 1024 \<le> r then PInf else Fin r)"
proof (cases "2 powi 1024 \<le> x")
  case True
  have "0 \<le> unit_roundoff" by (simp add: unit_roundoff_def)
  with True have "0 \<le> x * unit_roundoff"
    by (smt (verit) mult_nonneg_nonneg zero_less_power_int)
  with True have "x * (1 - unit_roundoff) \<le> x * (1 + unit_roundoff)
      \<and> x * (1 + unit_roundoff) \<le> x * (1 + unit_roundoff)
      \<and> 2 powi 1024 \<le> x * (1 + unit_roundoff)"
    by (simp add: algebra_simps)
  with True show ?thesis by (metis fl_huge)
next
  case False
  from assms have x: "0 < x" by (smt (verit) zero_less_power_int)
  define e where "e = expo x"
  define q :: real where "q = 2 powi (e - 52)"
  define r where "r = real_of_int (rne (x / q)) * q"
  have q: "0 < q" by (simp add: q_def)
  have lo: "2 powi e \<le> x"
  proof (cases "- 1022 < e")
    case True
    with expo_lower [of x] x show ?thesis by (simp add: e_def)
  next
    case False
    with expo_range [of x] have "e = - 1022" by (simp add: e_def)
    with assms show ?thesis by simp
  qed
  have "\<bar>real_of_int (rne (x / q)) - x / q\<bar> \<le> 1 / 2" by (rule rne_near)
  then have "\<bar>real_of_int (rne (x / q)) - x / q\<bar> * q \<le> 1 / 2 * q"
    using q by (intro mult_right_mono) simp_all
  then have "\<bar>(real_of_int (rne (x / q)) - x / q) * q\<bar> \<le> q / 2"
    using q by (simp add: abs_mult)
  then have near: "\<bar>r - x\<bar> \<le> q / 2"
    using q by (simp add: r_def left_diff_distrib)
  have "q / 2 = 2 powi e * unit_roundoff"
    by (simp add: q_def unit_roundoff_def power_int_diff power_int_minus field_simps)
  also have "\<dots> \<le> x * unit_roundoff"
    using lo by (intro mult_right_mono) (simp_all add: unit_roundoff_def)
  finally have "q / 2 \<le> x * unit_roundoff" .
  with near have "\<bar>r - x\<bar> \<le> x * unit_roundoff" by linarith
  then have "x - x * unit_roundoff \<le> r" "r \<le> x + x * unit_roundoff" by linarith+
  then have b: "x * (1 - unit_roundoff) \<le> r" "r \<le> x * (1 + unit_roundoff)"
    by (simp_all add: algebra_simps)
  have "unit_roundoff < 1" by (simp add: unit_roundoff_def power_int_minus)
  with x have "0 < x * (1 - unit_roundoff)" by simp
  with b have rpos: "0 < r" by linarith
  have "fl x = (if 2 powi 1024 \<le> r then PInf else Fin r)"
    using x rpos
    by (simp add: fl_def Let_def e_def [symmetric] q_def [symmetric] r_def [symmetric]
          inf_of_def)
  with b show ?thesis by blast
qed

lemma fl_normal:
  assumes "2 powi (- 1022) \<le> x"
  shows "fl x = PInf \<or>
    (\<exists>r. fl x = Fin r \<and> x * (1 - unit_roundoff) \<le> r \<and> r \<le> x * (1 + unit_roundoff))"
  using fl_normal_round [OF assms] by (metis (full_types))

lemma fl_normal_fin:
  assumes "2 powi (- 1022) \<le> x" "x * (1 + unit_roundoff) < 2 powi 1024"
  shows "\<exists>r. fl x = Fin r \<and> x * (1 - unit_roundoff) \<le> r \<and> r \<le> x * (1 + unit_roundoff)"
proof -
  from fl_normal_round [OF assms(1)] obtain r
    where r: "x * (1 - unit_roundoff) \<le> r" "r \<le> x * (1 + unit_roundoff)"
      "fl x = (if 2 powi 1024 \<le> r then PInf else Fin r)" by blast
  from r(2) assms(2) have "\<not> 2 powi 1024 \<le> r" by simp
  with r show ?thesis by auto
qed


lemma fl_not_NaN [simp]: "fl x \<noteq> NaN"
  by (simp add: fl_def Let_def inf_of_def zero_of_def)

lemma isNaN_fl [simp]: "\<not> isNaN (fl x)"
  by (simp add: fl_def Let_def inf_of_def zero_of_def)

lemma fl_nonneg_num: "0 \<le> x \<Longrightarrow> nonneg_num (fl x)"
  using fl_nonneg [of x] by (auto simp: nonneg_num_def)

lemma fl_nonpos_num: "x \<le> 0 \<Longrightarrow> nonpos_num (fl x)"
proof (cases "x = 0")
  case True
  then show ?thesis by (simp add: nonpos_num_def)
next
  case False
  assume "x \<le> 0"
  with False have "x < 0" by simp
  from fl_neg [OF this] show ?thesis by (auto simp: nonpos_num_def)
qed

lemma fl_fin_bound: "fl x = Fin r \<Longrightarrow> \<bar>r\<bar> < 2 powi 1024"
proof (cases "0 \<le> x")
  case True
  assume "fl x = Fin r"
  with fl_nonneg [OF True] show ?thesis by auto
next
  case False
  assume "fl x = Fin r"
  with fl_neg [of x] False show ?thesis by auto
qed

section \<open>Properties of the arithmetic\<close>

lemma js_add_fin: "x + y \<noteq> 0 \<Longrightarrow> js_add (Fin x) (Fin y) = fl (x + y)"
  by (simp add: js_add_def)

lemma js_sub_fin: "x \<noteq> y \<Longrightarrow> js_sub (Fin x) (Fin y) = fl (x - y)"
  by (simp add: js_sub_def js_add_def)

lemma js_mul_fin: "x \<noteq> 0 \<Longrightarrow> y \<noteq> 0 \<Longrightarrow> js_mul (Fin x) (Fin y) = fl (x * y)"
  by (simp add: js_mul_def)

lemma js_div_fin: "x \<noteq> 0 \<Longrightarrow> y \<noteq> 0 \<Longrightarrow> js_div (Fin x) (Fin y) = fl (x / y)"
  by (simp add: js_div_def)

lemma num_cases: "isNaN x \<or> nonneg_num x \<or> nonpos_num x"
  by (cases x) (auto simp: nonneg_num_def nonpos_num_def)

lemma Math_max_nonneg: "nonneg_num x \<Longrightarrow> Math_max (Fin 0) x = x"
  by (auto simp: nonneg_num_def Math_max_def js_lt_def)

lemma Math_max_nonpos: "nonpos_num x \<Longrightarrow> Math_max (Fin 0) x = Fin 0"
  by (auto simp: nonpos_num_def Math_max_def js_lt_def)

lemma Math_max_NaN: "isNaN x \<Longrightarrow> Math_max (Fin 0) x = NaN"
  by (simp add: Math_max_def)

lemma js_div_nonneg: "nonneg_num x \<Longrightarrow> 0 < q \<Longrightarrow> nonneg_num (js_div x (Fin q))"
proof -
  assume x: "nonneg_num x" and q: "0 < q"
  show ?thesis
  proof (cases "x = PInf")
    case True
    with q show ?thesis by (simp add: js_div_def inf_of_def nonneg_num_def)
  next
    case False
    with x obtain r where r: "x = Fin r" "0 \<le> r" by (auto simp: nonneg_num_def)
    show ?thesis
    proof (cases "r = 0")
      case True
      with r q show ?thesis by (simp add: js_div_def zero_of_def nonneg_num_def)
    next
      case False
      with r q have "js_div x (Fin q) = fl (r / q)" by (simp add: js_div_fin)
      moreover from r q have "0 \<le> r / q" by simp
      ultimately show ?thesis by (simp add: fl_nonneg_num)
    qed
  qed
qed

lemma js_div_nonpos: "nonpos_num x \<Longrightarrow> 0 < q \<Longrightarrow> nonpos_num (js_div x (Fin q))"
proof -
  assume x: "nonpos_num x" and q: "0 < q"
  from x consider "x = NInf" | "x = NZero" | r where "x = Fin r" "r \<le> 0"
    by (auto simp: nonpos_num_def)
  then show ?thesis
  proof cases
    case 1
    with q show ?thesis by (simp add: js_div_def inf_of_def nonpos_num_def)
  next
    case 2
    with q show ?thesis by (simp add: js_div_def zero_of_def nonpos_num_def)
  next
    case 3
    show ?thesis
    proof (cases "r = 0")
      case True
      with 3 q show ?thesis by (simp add: js_div_def zero_of_def nonpos_num_def)
    next
      case False
      with 3 q have "js_div x (Fin q) = fl (r / q)" by (simp add: js_div_fin)
      moreover from 3 q have "r / q \<le> 0" by (simp add: divide_nonpos_pos)
      ultimately show ?thesis by (simp add: fl_nonpos_num)
    qed
  qed
qed

lemma js_mul_nonneg: "nonneg_num x \<Longrightarrow> 0 < l \<Longrightarrow> nonneg_num (js_mul x (Fin l))"
proof -
  assume x: "nonneg_num x" and l: "0 < l"
  show ?thesis
  proof (cases "x = PInf")
    case True
    with l show ?thesis by (simp add: js_mul_def inf_of_def nonneg_num_def)
  next
    case False
    with x obtain r where r: "x = Fin r" "0 \<le> r" by (auto simp: nonneg_num_def)
    show ?thesis
    proof (cases "r = 0")
      case True
      with r l show ?thesis by (simp add: js_mul_def zero_of_def nonneg_num_def)
    next
      case False
      with r l have "js_mul x (Fin l) = fl (r * l)" by (simp add: js_mul_fin)
      moreover from r l have "0 \<le> r * l" by simp
      ultimately show ?thesis by (simp add: fl_nonneg_num)
    qed
  qed
qed

lemma js_mul_nonpos: "nonpos_num x \<Longrightarrow> 0 < l \<Longrightarrow> nonpos_num (js_mul x (Fin l))"
proof -
  assume x: "nonpos_num x" and l: "0 < l"
  from x consider "x = NInf" | "x = NZero" | r where "x = Fin r" "r \<le> 0"
    by (auto simp: nonpos_num_def)
  then show ?thesis
  proof cases
    case 1
    with l show ?thesis by (simp add: js_mul_def inf_of_def nonpos_num_def)
  next
    case 2
    with l show ?thesis by (simp add: js_mul_def zero_of_def nonpos_num_def)
  next
    case 3
    show ?thesis
    proof (cases "r = 0")
      case True
      with 3 l show ?thesis by (simp add: js_mul_def zero_of_def nonpos_num_def)
    next
      case False
      with 3 l have "js_mul x (Fin l) = fl (r * l)" by (simp add: js_mul_fin)
      moreover from 3 l have "r * l \<le> 0" by (simp add: mult_le_0_iff)
      ultimately show ?thesis by (simp add: fl_nonpos_num)
    qed
  qed
qed

lemma fl_1699: "fl 1.699 = Fin (7651615766902473 / 4503599627370496)"
  using fl_eq_pos [where x = "1.699" and e = 0 and n = 7651615766902473]
  by simp

lemma fl_1599: "fl 1.599 = Fin (7201255804165423 / 4503599627370496)"
  using fl_eq_pos [where x = "1.599" and e = 0 and n = 7201255804165423]
  by simp

lemma fl_13: "fl 1.3 = Fin (5854679515581645 / 4503599627370496)"
  using fl_eq_pos [where x = "1.3" and e = 0 and n = 5854679515581645]
  by simp

lemma fl_2814: "fl 28.14 = Fin (1980176461159465 / 70368744177664)"
  using fl_eq_pos [where x = "28.14" and e = 4 and n = 7920705844637860]
  by simp

lemma fl_2815: "fl 28.15 = Fin (3961760297202483 / 140737488355328)"
  using fl_eq_pos [where x = "28.15" and e = 4 and n = 7923520594404966]
  by simp

lemma fl_10005: "fl 1.0005 = Fin (4505851427184181 / 4503599627370496)"
  using fl_eq_pos [where x = "1.0005" and e = 0 and n = 4505851427184181]
  by simp

lemma fl_0001: "fl 0.001 = Fin (1152921504606847 / 1152921504606846976)"
  using fl_eq_pos [where x = "0.001" and e = "-10" and n = 4611686018427388]
  by simp

lemma initial_diff:
  "js_sub (fl 1.699) (fl 1.599) = Fin (225179981368525 / 2251799813685248)"
  using fl_eq_pos [where x = "7651615766902473 / 4503599627370496 - 7201255804165423 / 4503599627370496" and e = "-4" and n = 7205759403792800]
  unfolding fl_1699 fl_1599 by (simp add: js_sub_fin)

lemma initial_saving:
  "js_mul (Fin (225179981368525 / 2251799813685248)) (Fin 25) = Fin (5629499534213125 / 2251799813685248)"
  using fl_eq_pos [where x = "225179981368525 / 2251799813685248 * 25" and e = 1 and n = 5629499534213125]
  by (simp add: js_mul_fin)

lemma initial_cost:
  "js_div (fl 1.599) (Fin 18) = Fin (6401116270369265 / 72057594037927936)"
  using fl_eq_pos [where x = "(7201255804165423 / 4503599627370496) / 18" and e = "-4" and n = 6401116270369265]
  unfolding fl_1599 by (simp add: js_div_fin)

lemma initial_extra:
  "js_div (Fin (5629499534213125 / 2251799813685248)) (Fin (6401116270369265 / 72057594037927936)) = Fin (1980358654155649 / 70368744177664)"
  using fl_eq_pos [where x = "(5629499534213125 / 2251799813685248) / (6401116270369265 / 72057594037927936)" and e = 4 and n = 7921434616622596]
  by (simp add: js_div_fin)

lemma initial_one_way:
  "js_div (Fin (1980358654155649 / 70368744177664)) (Fin 2) = Fin (1980358654155649 / 140737488355328)"
  using fl_eq_pos [where x = "(1980358654155649 / 70368744177664) / 2" and e = 3 and n = 7921434616622596]
  by (simp add: js_div_fin)

lemma sum_example:
  "js_add (fl 1.0005) (fl 0.001) = Fin (4510355026811551 / 4503599627370496)"
  using fl_eq_pos [where x = "4505851427184181 / 4503599627370496 + 1152921504606847 / 1152921504606846976" and e = 0 and n = 4510355026811551]
  unfolding fl_10005 fl_0001 by (simp add: js_add_fin)

section \<open>Properties of the savings calculator\<close>

lemma fl_two_half: "fl 2.5 = Fin (5 / 2)"
  using fl_eq_pos [where x = "2.5" and e = 1 and n = 5629499534213120]
  by simp

lemma initial_results:
  "calculateSavings (fuelData initialState) =
     \<lparr> savingsEuro = Fin (5629499534213125 / 2251799813685248),
       extraKms = Fin (1980358654155649 / 70368744177664),
       maxOneWayDistance = Fin (1980358654155649 / 140737488355328),
       costPerKm = Fin (6401116270369265 / 72057594037927936) \<rparr>"
  unfolding calculateSavings_def initialState_def Let_def AppState.select_convs
    FuelData.select_convs initial_diff initial_saving initial_cost initial_extra
    initial_one_way
  by (simp add: Math_max_def js_lt_def)

lemma one_way_of_extra:
  "Math_max (Fin 0) (js_div x (Fin 2)) =
   Math_max (Fin 0) (js_div (Math_max (Fin 0) x) (Fin 2))"
proof -
  from num_cases [of x] consider "isNaN x" | "nonneg_num x" | "nonpos_num x" by blast
  then show ?thesis
  proof cases
    case 1
    then show ?thesis by (simp add: Math_max_NaN js_div_def)
  next
    case 2
    then show ?thesis by (simp add: Math_max_nonneg)
  next
    case 3
    then have "nonpos_num (js_div x (Fin 2))" by (rule js_div_nonpos) simp
    then have l: "Math_max (Fin 0) (js_div x (Fin 2)) = Fin 0" by (rule Math_max_nonpos)
    have "js_div (Fin 0) (Fin 2) = Fin 0" by (simp add: js_div_def zero_of_def)
    moreover have "Math_max (Fin 0) (Fin 0) = Fin 0" by (simp add: Math_max_def js_lt_def)
    ultimately show ?thesis using l 3 by (simp add: Math_max_nonpos)
  qed
qed

lemma Math_max_zero_of [simp]: "Math_max (Fin 0) (zero_of b) = Fin 0"
  by (simp add: zero_of_def Math_max_def js_lt_def)

lemma extra_of_nonneg_saving:
  assumes "js_le (Fin 0) u"
  shows "Math_max (Fin 0) (js_div u c) = Math_max (Fin 0) (js_div (Math_max (Fin 0) u) c)"
proof (cases "u = NZero")
  case True
  have "Math_max (Fin 0) (js_div NZero c) = Math_max (Fin 0) (js_div (Fin 0) c)"
    by (cases c) (simp_all add: js_div_def Math_max_NaN)
  with True show ?thesis by (simp add: Math_max_def js_lt_def)
next
  case False
  with assms have "nonneg_num u"
    by (cases u) (simp_all add: js_le_def nonneg_num_def)
  then show ?thesis by (simp add: Math_max_nonneg)
qed

text \<open>
  C1, as the code has it, in binary64 arithmetic. For every record, \<open>savingsEuro\<close> is the
  product \<open>(priceOnRoad - priceOffRoad) * litersToRefuel\<close> clamped at 0, \<open>costPerKm\<close> is
  \<open>priceOffRoad / consumptionKmL\<close> unclamped, \<open>extraKms\<close> is the \<^emph>\<open>unclamped\<close> product
  divided by \<open>costPerKm\<close>, clamped at 0, and \<open>maxOneWayDistance\<close> is \<open>max(0, extraKms / 2)\<close>.
  The quotient of the clamped \<open>savingsEuro\<close> and \<open>costPerKm\<close>, which the claim names,
  gives the same \<open>extraKms\<close> whenever the product is not negative.
\<close>

theorem calculateSavings_formulas:
  fixes d :: FuelData
  defines "u \<equiv> js_mul (js_sub (priceOnRoad d) (priceOffRoad d)) (litersToRefuel d)"
    and "c \<equiv> js_div (priceOffRoad d) (consumptionKmL d)"
    and "r \<equiv> calculateSavings d"
  shows "savingsEuro r = Math_max (Fin 0) u
     \<and> costPerKm r = c
     \<and> extraKms r = Math_max (Fin 0) (js_div u c)
     \<and> maxOneWayDistance r = Math_max (Fin 0) (js_div (extraKms r) (Fin 2))
     \<and> (js_le (Fin 0) u \<longrightarrow>
          extraKms r = Math_max (Fin 0) (js_div (savingsEuro r) (costPerKm r)))"
proof -
  have 1: "savingsEuro r = Math_max (Fin 0) u" "costPerKm r = c"
    "extraKms r = Math_max (Fin 0) (js_div u c)"
    by (simp_all add: r_def u_def c_def calculateSavings_def Let_def)
  have 2: "maxOneWayDistance r = Math_max (Fin 0) (js_div (extraKms r) (Fin 2))"
    unfolding 1
    by (simp add: r_def u_def c_def calculateSavings_def Let_def one_way_of_extra [symmetric])
  have 3: "extraKms r = Math_max (Fin 0) (js_div (savingsEuro r) (costPerKm r))"
    if "js_le (Fin 0) u"
    unfolding 1 using that by (rule extra_of_nonneg_saving)
  from 1 2 3 show ?thesis by blast
qed

theorem calculateSavings_formulas_witness:
  "js_le (Fin 0)
     (js_mul (js_sub (priceOnRoad (fuelData initialState)) (priceOffRoad (fuelData initialState)))
        (litersToRefuel (fuelData initialState)))
   \<and> extraKms (calculateSavings (fuelData initialState)) =
       Math_max (Fin 0)
         (js_div (savingsEuro (calculateSavings (fuelData initialState)))
                 (costPerKm (calculateSavings (fuelData initialState))))"
proof -
  have "js_mul (js_sub (priceOnRoad (fuelData initialState)) (priceOffRoad (fuelData initialState)))
        (litersToRefuel (fuelData initialState)) = Fin (5629499534213125 / 2251799813685248)"
    unfolding initialState_def AppState.select_convs FuelData.select_convs initial_diff
      initial_saving by (rule refl)
  then have h: "js_le (Fin 0)
     (js_mul (js_sub (priceOnRoad (fuelData initialState)) (priceOffRoad (fuelData initialState)))
        (litersToRefuel (fuelData initialState)))"
    by (simp add: js_le_def)
  from h calculateSavings_formulas [of "fuelData initialState"] show ?thesis by blast
qed

text \<open>
  The claim's own formula fails where the product is negative and \<open>costPerKm\<close> is too:
  with prices 1 and 2, one litre and a consumption of -1, \<open>savingsEuro\<close> is 0 and
  \<open>costPerKm\<close> is -2, the claim's \<open>max(0, 0 / -2)\<close> is 0, and the code returns
  \<open>extraKms = 0.5\<close>.
\<close>

theorem calculateSavings_extraKms_counterexample:
  "extraKms (calculateSavings \<lparr> priceOnRoad = Fin 1, priceOffRoad = Fin 2,
       litersToRefuel = Fin 1, consumptionKmL = Fin (- 1) \<rparr>) = Fin (1 / 2)
   \<and> Math_max (Fin 0)
       (js_div
         (savingsEuro (calculateSavings \<lparr> priceOnRoad = Fin 1, priceOffRoad = Fin 2,
            litersToRefuel = Fin 1, consumptionKmL = Fin (- 1) \<rparr>))
         (costPerKm (calculateSavings \<lparr> priceOnRoad = Fin 1, priceOffRoad = Fin 2,
            litersToRefuel = Fin 1, consumptionKmL = Fin (- 1) \<rparr>))) = Fin 0"
proof -
  have one: "fl 1 = Fin 1"
    using fl_eq_pos [where x = 1 and e = 0 and n = "2 ^ 52"] by simp
  have two: "fl 2 = Fin 2"
    using fl_eq_pos [where x = 2 and e = 1 and n = "2 ^ 52"] by simp
  have half: "fl (1 / 2) = Fin (1 / 2)"
    using fl_eq_pos [where x = "1 / 2" and e = "- 1" and n = "2 ^ 52"] by simp
  have m1: "fl (- 1) = Fin (- 1)" using fl_minus [of 1] by (simp add: one)
  have m2: "fl (- 2) = Fin (- 2)" using fl_minus [of 2] by (simp add: two)
  show ?thesis
    by (simp add: calculateSavings_def Let_def js_sub_def js_add_def js_mul_def js_div_def
          m1 m2 half Math_max_def js_lt_def zero_of_def)
qed

lemma nonneg_ge: "nonneg_num x \<Longrightarrow> js_le (Fin 0) x"
  by (auto simp: nonneg_num_def js_le_def)

lemma positive_cost:
  assumes "js_gt k (Fin 0)" "js_gt (js_div y k) (Fin 0)" "js_lt (js_div y k) PInf"
  shows "\<exists>b q. y = Fin b \<and> 0 < b \<and> js_div y k = Fin q \<and> 0 < q"
proof -
  from assms(2,3) obtain q where q: "js_div y k = Fin q" "0 < q"
    by (cases "js_div y k") (auto simp: js_gt_def js_lt_def)
  from q have k: "\<not> is_inf k"
    by (auto simp: js_div_def inf_of_def zero_of_def split: if_splits)
  with assms(1) obtain k' where k': "k = Fin k'" "0 < k'"
    by (cases k) (auto simp: js_gt_def js_lt_def)
  from q k' obtain b where b: "y = Fin b" "b \<noteq> 0"
    by (cases y) (auto simp: js_div_def inf_of_def zero_of_def split: if_splits)
  have "0 < b"
  proof (rule ccontr)
    assume "\<not> 0 < b"
    with k' have "b / k' \<le> 0" by (simp add: divide_nonpos_pos)
    then have "nonpos_num (fl (b / k'))" by (rule fl_nonpos_num)
    with b k' q show False by (auto simp: js_div_fin nonpos_num_def)
  qed
  with b q show ?thesis by blast
qed

lemma finite_positive:
  assumes "js_gt l (Fin 0)" "js_lt l PInf"
  shows "\<exists>l'. l = Fin l' \<and> 0 < l'"
  using assms by (cases l) (auto simp: js_gt_def js_lt_def)

lemma diff_nonneg: "js_gt x (Fin b) \<Longrightarrow> nonneg_num (js_sub x (Fin b))"
proof -
  assume h: "js_gt x (Fin b)"
  then consider "x = PInf" | a where "x = Fin a" "b < a" | "x = NZero" "b < 0"
    by (cases x) (auto simp: js_gt_def js_lt_def)
  then show ?thesis
  proof cases
    case 1
    then show ?thesis by (simp add: js_sub_def js_add_def nonneg_num_def)
  next
    case 2
    then have "js_sub x (Fin b) = fl (a - b)" by (simp add: js_sub_fin)
    moreover from 2 have "0 \<le> a - b" by simp
    ultimately show ?thesis by (simp add: fl_nonneg_num)
  next
    case 3
    then have "js_sub x (Fin b) = fl (- b)" by (simp add: js_sub_def js_add_def)
    moreover from 3 have "0 \<le> - b" by simp
    ultimately show ?thesis by (simp add: fl_nonneg_num)
  qed
qed

lemma diff_nonpos: "js_le x (Fin b) \<Longrightarrow> 0 < b \<Longrightarrow> nonpos_num (js_sub x (Fin b))"
proof -
  assume h: "js_le x (Fin b)" and b: "0 < b"
  then consider "x = NInf" | a where "x = Fin a" "a \<le> b" | "x = NZero"
    by (cases x) (auto simp: js_le_def)
  then show ?thesis
  proof cases
    case 1
    then show ?thesis by (simp add: js_sub_def js_add_def nonpos_num_def)
  next
    case 2
    show ?thesis
    proof (cases "a = b")
      case True
      with 2 b show ?thesis by (simp add: js_sub_def js_add_def nonpos_num_def)
    next
      case False
      with 2 have "js_sub x (Fin b) = fl (a - b)" by (simp add: js_sub_fin)
      moreover from 2 have "a - b \<le> 0" by simp
      ultimately show ?thesis by (simp add: fl_nonpos_num)
    qed
  next
    case 3
    with b have "js_sub x (Fin b) = fl (- b)" by (simp add: js_sub_def js_add_def)
    moreover from b have "- b \<le> 0" by simp
    ultimately show ?thesis by (simp add: fl_nonpos_num)
  qed
qed

text \<open>
  C5, as far as it holds in binary64 arithmetic. Let \<open>litersToRefuel\<close> be positive and
  finite, \<open>consumptionKmL\<close> positive, and the computed \<open>costPerKm\<close> positive and finite
  (it is 0 when the quotient underflows and \<open>NaN\<close> when both operands are infinite).
  When \<open>priceOnRoad > priceOffRoad > 0\<close>, the three clamped results are \<open>\<ge> 0\<close> and
  \<open>maxOneWayDistance\<close> is exactly \<open>extraKms / 2\<close>. When \<open>priceOnRoad \<le> priceOffRoad\<close>,
  \<open>savingsEuro\<close> and \<open>extraKms\<close> are 0.
\<close>

theorem calculateSavings_relational:
  fixes d :: FuelData
  defines "r \<equiv> calculateSavings d"
  shows "(js_gt (priceOnRoad d) (priceOffRoad d) \<and> js_gt (priceOffRoad d) (Fin 0)
          \<and> js_gt (litersToRefuel d) (Fin 0) \<and> js_lt (litersToRefuel d) PInf
          \<and> js_gt (consumptionKmL d) (Fin 0)
          \<and> js_gt (costPerKm r) (Fin 0) \<and> js_lt (costPerKm r) PInf \<longrightarrow>
            js_ge (savingsEuro r) (Fin 0) \<and> js_ge (extraKms r) (Fin 0)
            \<and> js_ge (maxOneWayDistance r) (Fin 0)
            \<and> maxOneWayDistance r = js_div (extraKms r) (Fin 2))
     \<and> (js_le (priceOnRoad d) (priceOffRoad d)
          \<and> js_gt (litersToRefuel d) (Fin 0) \<and> js_lt (litersToRefuel d) PInf
          \<and> js_gt (consumptionKmL d) (Fin 0)
          \<and> js_gt (costPerKm r) (Fin 0) \<and> js_lt (costPerKm r) PInf \<longrightarrow>
            savingsEuro r = Fin 0 \<and> extraKms r = Fin 0)"
proof -
  let ?u = "js_mul (js_sub (priceOnRoad d) (priceOffRoad d)) (litersToRefuel d)"
  let ?c = "js_div (priceOffRoad d) (consumptionKmL d)"
  have c: "costPerKm r = ?c" by (simp add: r_def calculateSavings_def Let_def)
  have 1: "js_ge (savingsEuro r) (Fin 0) \<and> js_ge (extraKms r) (Fin 0)
            \<and> js_ge (maxOneWayDistance r) (Fin 0)
            \<and> maxOneWayDistance r = js_div (extraKms r) (Fin 2)"
    if h: "js_gt (priceOnRoad d) (priceOffRoad d) \<and> js_gt (priceOffRoad d) (Fin 0)
          \<and> js_gt (litersToRefuel d) (Fin 0) \<and> js_lt (litersToRefuel d) PInf
          \<and> js_gt (consumptionKmL d) (Fin 0)
          \<and> js_gt (costPerKm r) (Fin 0) \<and> js_lt (costPerKm r) PInf"
  proof -
    from h c obtain b q where b: "priceOffRoad d = Fin b" "0 < b" and q: "?c = Fin q" "0 < q"
      using positive_cost [of "consumptionKmL d" "priceOffRoad d"] by auto
    from h obtain l where l: "litersToRefuel d = Fin l" "0 < l"
      using finite_positive [of "litersToRefuel d"] by auto
    from h b have "nonneg_num (js_sub (priceOnRoad d) (priceOffRoad d))"
      by (simp add: diff_nonneg)
    with l have u: "nonneg_num ?u" by (simp add: js_mul_nonneg)
    with q have e: "nonneg_num (js_div ?u ?c)" by (simp add: js_div_nonneg)
    then have m: "nonneg_num (js_div (js_div ?u ?c) (Fin 2))" by (rule js_div_nonneg) simp
    from u e m show ?thesis
      by (simp add: r_def calculateSavings_def Let_def Math_max_nonneg js_ge_def nonneg_ge)
  qed
  have 2: "savingsEuro r = Fin 0 \<and> extraKms r = Fin 0"
    if h: "js_le (priceOnRoad d) (priceOffRoad d)
          \<and> js_gt (litersToRefuel d) (Fin 0) \<and> js_lt (litersToRefuel d) PInf
          \<and> js_gt (consumptionKmL d) (Fin 0)
          \<and> js_gt (costPerKm r) (Fin 0) \<and> js_lt (costPerKm r) PInf"
  proof -
    from h c obtain b q where b: "priceOffRoad d = Fin b" "0 < b" and q: "?c = Fin q" "0 < q"
      using positive_cost [of "consumptionKmL d" "priceOffRoad d"] by auto
    from h obtain l where l: "litersToRefuel d = Fin l" "0 < l"
      using finite_positive [of "litersToRefuel d"] by auto
    from h b have "nonpos_num (js_sub (priceOnRoad d) (priceOffRoad d))"
      by (simp add: diff_nonpos)
    with l have u: "nonpos_num ?u" by (simp add: js_mul_nonpos)
    with q have e: "nonpos_num (js_div ?u ?c)" by (simp add: js_div_nonpos)
    from u e show ?thesis
      by (simp add: r_def calculateSavings_def Let_def Math_max_nonpos)
  qed
  from 1 2 show ?thesis by blast
qed

lemma fl_one: "fl 1 = Fin 1"
  using fl_eq_pos [where x = 1 and e = 0 and n = "2 ^ 52"] by simp

lemma fl_two: "fl 2 = Fin 2"
  using fl_eq_pos [where x = 2 and e = 1 and n = "2 ^ 52"] by simp

theorem calculateSavings_relational_witness:
  "(js_gt (priceOnRoad (fuelData initialState)) (priceOffRoad (fuelData initialState))
    \<and> js_gt (priceOffRoad (fuelData initialState)) (Fin 0)
    \<and> js_gt (litersToRefuel (fuelData initialState)) (Fin 0)
    \<and> js_lt (litersToRefuel (fuelData initialState)) PInf
    \<and> js_gt (consumptionKmL (fuelData initialState)) (Fin 0)
    \<and> js_gt (costPerKm (calculateSavings (fuelData initialState))) (Fin 0)
    \<and> js_lt (costPerKm (calculateSavings (fuelData initialState))) PInf)
   \<and> (js_ge (savingsEuro (calculateSavings (fuelData initialState))) (Fin 0)
    \<and> js_ge (extraKms (calculateSavings (fuelData initialState))) (Fin 0)
    \<and> js_ge (maxOneWayDistance (calculateSavings (fuelData initialState))) (Fin 0)
    \<and> maxOneWayDistance (calculateSavings (fuelData initialState)) =
         js_div (extraKms (calculateSavings (fuelData initialState))) (Fin 2))
   \<and> (js_le (Fin 1) (Fin 2) \<and> js_gt (Fin 5) (Fin 0) \<and> js_lt (Fin 5) PInf
    \<and> js_gt (Fin 1) (Fin 0)
    \<and> js_gt (costPerKm (calculateSavings \<lparr> priceOnRoad = Fin 1, priceOffRoad = Fin 2,
         litersToRefuel = Fin 5, consumptionKmL = Fin 1 \<rparr>)) (Fin 0)
    \<and> js_lt (costPerKm (calculateSavings \<lparr> priceOnRoad = Fin 1, priceOffRoad = Fin 2,
         litersToRefuel = Fin 5, consumptionKmL = Fin 1 \<rparr>)) PInf)
   \<and> (savingsEuro (calculateSavings \<lparr> priceOnRoad = Fin 1, priceOffRoad = Fin 2,
         litersToRefuel = Fin 5, consumptionKmL = Fin 1 \<rparr>) = Fin 0
    \<and> extraKms (calculateSavings \<lparr> priceOnRoad = Fin 1, priceOffRoad = Fin 2,
         litersToRefuel = Fin 5, consumptionKmL = Fin 1 \<rparr>) = Fin 0)"
proof -
  let ?d = "\<lparr> priceOnRoad = Fin 1, priceOffRoad = Fin 2,
         litersToRefuel = Fin 5, consumptionKmL = Fin 1 \<rparr>"
  have p: "fuelData initialState =
      \<lparr> priceOnRoad = Fin (7651615766902473 / 4503599627370496), priceOffRoad = Fin (7201255804165423 / 4503599627370496),
        litersToRefuel = Fin 25, consumptionKmL = Fin 18 \<rparr>"
    unfolding initialState_def fl_1699 fl_1599 by simp
  have h1: "js_gt (priceOnRoad (fuelData initialState)) (priceOffRoad (fuelData initialState))
    \<and> js_gt (priceOffRoad (fuelData initialState)) (Fin 0)
    \<and> js_gt (litersToRefuel (fuelData initialState)) (Fin 0)
    \<and> js_lt (litersToRefuel (fuelData initialState)) PInf
    \<and> js_gt (consumptionKmL (fuelData initialState)) (Fin 0)
    \<and> js_gt (costPerKm (calculateSavings (fuelData initialState))) (Fin 0)
    \<and> js_lt (costPerKm (calculateSavings (fuelData initialState))) PInf"
    unfolding initial_results unfolding p by (simp add: js_gt_def js_lt_def)
  have c: "costPerKm (calculateSavings ?d) = Fin 2"
    by (simp add: calculateSavings_def Let_def js_div_fin fl_two)
  have h2: "js_le (priceOnRoad ?d) (priceOffRoad ?d) \<and> js_gt (litersToRefuel ?d) (Fin 0)
    \<and> js_lt (litersToRefuel ?d) PInf \<and> js_gt (consumptionKmL ?d) (Fin 0)
    \<and> js_gt (costPerKm (calculateSavings ?d)) (Fin 0)
    \<and> js_lt (costPerKm (calculateSavings ?d)) PInf"
    unfolding c by (simp add: js_gt_def js_lt_def js_le_def)
  from h1 calculateSavings_relational [of "fuelData initialState"]
  have c1: "js_ge (savingsEuro (calculateSavings (fuelData initialState))) (Fin 0)
    \<and> js_ge (extraKms (calculateSavings (fuelData initialState))) (Fin 0)
    \<and> js_ge (maxOneWayDistance (calculateSavings (fuelData initialState))) (Fin 0)
    \<and> maxOneWayDistance (calculateSavings (fuelData initialState)) =
         js_div (extraKms (calculateSavings (fuelData initialState))) (Fin 2)"
    by blast
  from h2 calculateSavings_relational [of ?d]
  have c2: "savingsEuro (calculateSavings ?d) = Fin 0 \<and> extraKms (calculateSavings ?d) = Fin 0"
    by blast
  from h2 have h2': "js_le (Fin 1) (Fin 2) \<and> js_gt (Fin 5) (Fin 0) \<and> js_lt (Fin 5) PInf
    \<and> js_gt (Fin 1) (Fin 0)
    \<and> js_gt (costPerKm (calculateSavings ?d)) (Fin 0)
    \<and> js_lt (costPerKm (calculateSavings ?d)) PInf"
    by simp
  from h1 c1 h2' c2 show ?thesis by blast
qed

lemma fl_small_power: "fl (1 / 2 ^ 600) = Fin (1 / 2 ^ 600)"
  using fl_eq_pos [where x = "1 / 2 ^ 600" and e = "- 600" and n = "2 ^ 52"]
  by (simp add: power_int_minus field_simps)

lemma fl_underflow: "fl (1 / 2 ^ 1200) = Fin 0"
  by (rule fl_tiny) (simp_all add: power_int_minus field_simps)

lemma underflow_first:
  "extraKms (calculateSavings \<lparr> priceOnRoad = Fin (2 / 2 ^ 600), priceOffRoad = Fin (1 / 2 ^ 600),
       litersToRefuel = Fin (1 / 2 ^ 600), consumptionKmL = Fin (2 ^ 600) \<rparr>) = NaN"
proof -
  have d: "js_sub (Fin (2 / 2 ^ 600)) (Fin (1 / 2 ^ 600)) = Fin (1 / 2 ^ 600)"
    using fl_small_power by (simp add: js_sub_fin)
  have m: "js_mul (Fin (1 / 2 ^ 600)) (Fin (1 / 2 ^ 600)) = Fin 0"
    using fl_underflow by (simp add: js_mul_fin flip: power_add)
  have c: "js_div (Fin (1 / 2 ^ 600)) (Fin (2 ^ 600)) = Fin 0"
    using fl_underflow by (simp add: js_div_fin flip: power_add)
  show ?thesis
    unfolding calculateSavings_def Let_def FuelData.select_convs d m c
    by (simp add: js_div_def Math_max_def)
qed

lemma underflow_second:
  "extraKms (calculateSavings \<lparr> priceOnRoad = Fin (1 / 2 ^ 600), priceOffRoad = Fin (1 / 2 ^ 600),
       litersToRefuel = Fin 1, consumptionKmL = Fin (2 ^ 600) \<rparr>) = NaN"
proof -
  have d: "js_sub (Fin (1 / 2 ^ 600)) (Fin (1 / 2 ^ 600)) = Fin 0"
    by (simp add: js_sub_def js_add_def)
  have m: "js_mul (Fin 0) (Fin 1) = Fin 0"
    by (simp add: js_mul_def zero_of_def)
  have c: "js_div (Fin (1 / 2 ^ 600)) (Fin (2 ^ 600)) = Fin 0"
    using fl_underflow by (simp add: js_div_fin flip: power_add)
  show ?thesis
    unfolding calculateSavings_def Let_def FuelData.select_convs d m c
    by (simp add: js_div_def Math_max_def)
qed

text \<open>
  Without the condition on \<open>costPerKm\<close> both halves of C5 fail, on positive finite
  inputs. With prices \<open>2^-599\<close> and \<open>2^-600\<close>, \<open>2^-600\<close> litres and a consumption of
  \<open>2^600\<close>, the product and \<open>costPerKm\<close> both underflow to 0 and \<open>extraKms\<close> is
  \<open>0 / 0 = NaN\<close>, which is not \<open>\<ge> 0\<close>. With both prices \<open>2^-600\<close>, one litre and the same
  consumption, \<open>extraKms\<close> is again \<open>NaN\<close>, not 0. The second half also fails on a state
  the program reaches with no field in error: the provincial price \<open>0\<close> sets both prices
  to 0, and \<open>extraKms\<close> is \<open>0 / 0 = NaN\<close>.
\<close>

theorem calculateSavings_relational_counterexample:
  "js_gt (Fin (2 / 2 ^ 600)) (Fin (1 / 2 ^ 600)) \<and> js_gt (Fin (1 / 2 ^ 600)) (Fin 0)
   \<and> js_gt (Fin (2 ^ 600)) (Fin 0)
   \<and> extraKms (calculateSavings \<lparr> priceOnRoad = Fin (2 / 2 ^ 600),
         priceOffRoad = Fin (1 / 2 ^ 600), litersToRefuel = Fin (1 / 2 ^ 600),
         consumptionKmL = Fin (2 ^ 600) \<rparr>) = NaN
   \<and> \<not> js_ge NaN (Fin 0)
   \<and> js_le (Fin (1 / 2 ^ 600)) (Fin (1 / 2 ^ 600)) \<and> js_gt (Fin 1) (Fin 0)
   \<and> extraKms (calculateSavings \<lparr> priceOnRoad = Fin (1 / 2 ^ 600),
         priceOffRoad = Fin (1 / 2 ^ 600), litersToRefuel = Fin 1,
         consumptionKmL = Fin (2 ^ 600) \<rparr>) = NaN
   \<and> fuelData (applyProvincialPrice initialState ''0'') =
     \<lparr> priceOnRoad = Fin 0, priceOffRoad = Fin 0,
       litersToRefuel = Fin 25, consumptionKmL = Fin 18 \<rparr>
   \<and> hasErrors (errors (applyProvincialPrice initialState ''0'')) = False
   \<and> js_le (Fin 0) (Fin 0) \<and> js_gt (Fin 25) (Fin 0) \<and> js_gt (Fin 18) (Fin 0)
   \<and> savingsEuro (calculateSavings \<lparr> priceOnRoad = Fin 0, priceOffRoad = Fin 0,
       litersToRefuel = Fin 25, consumptionKmL = Fin 18 \<rparr>) = Fin 0
   \<and> extraKms (calculateSavings \<lparr> priceOnRoad = Fin 0, priceOffRoad = Fin 0,
       litersToRefuel = Fin 25, consumptionKmL = Fin 18 \<rparr>) = NaN"
proof -
  have p: "parseFloat (cleaned ''0'') = Fin 0"
    by (simp add: parseFloat_def cleaned_def trim_def price_char_def is_digit_def is_space_def
          digits_val_def digit_val_def zero_of_def)
  have s: "applyProvincialPrice initialState ''0'' =
      \<lparr> fuelData = \<lparr> priceOnRoad = Fin 0, priceOffRoad = Fin 0,
                      litersToRefuel = Fin 25, consumptionKmL = Fin 18 \<rparr>,
        errors = [PriceOnRoad \<mapsto> [], PriceOffRoad \<mapsto> []] \<rparr>"
    by (simp add: applyProvincialPrice_def p initialState_def Let_def)
  have h: "hasErrors [PriceOnRoad \<mapsto> [], PriceOffRoad \<mapsto> []] = False"
    by (simp add: hasErrors_def)
  have e: "savingsEuro (calculateSavings \<lparr> priceOnRoad = Fin 0, priceOffRoad = Fin 0,
       litersToRefuel = Fin 25, consumptionKmL = Fin 18 \<rparr>) = Fin 0
     \<and> extraKms (calculateSavings \<lparr> priceOnRoad = Fin 0, priceOffRoad = Fin 0,
       litersToRefuel = Fin 25, consumptionKmL = Fin 18 \<rparr>) = NaN"
    by (simp add: calculateSavings_def js_sub_def js_add_def js_mul_def js_div_def
          Math_max_def js_lt_def zero_of_def Let_def)
  have c: "js_le (Fin 0) (Fin 0) \<and> js_gt (Fin 25) (Fin 0) \<and> js_gt (Fin 18) (Fin 0)"
    by (simp add: js_le_def js_gt_def js_lt_def)
  have o: "js_gt (Fin (2 / 2 ^ 600)) (Fin (1 / 2 ^ 600)) \<and> js_gt (Fin (1 / 2 ^ 600)) (Fin 0)
      \<and> js_gt (Fin (2 ^ 600)) (Fin 0) \<and> \<not> js_ge NaN (Fin 0)
      \<and> js_le (Fin (1 / 2 ^ 600)) (Fin (1 / 2 ^ 600)) \<and> js_gt (Fin 1) (Fin 0)"
    by (simp add: js_le_def js_ge_def js_gt_def js_lt_def)
  from h e c have "fuelData (applyProvincialPrice initialState ''0'') =
       \<lparr> priceOnRoad = Fin 0, priceOffRoad = Fin 0,
         litersToRefuel = Fin 25, consumptionKmL = Fin 18 \<rparr>
     \<and> hasErrors (errors (applyProvincialPrice initialState ''0'')) = False
     \<and> js_le (Fin 0) (Fin 0) \<and> js_gt (Fin 25) (Fin 0) \<and> js_gt (Fin 18) (Fin 0)
     \<and> savingsEuro (calculateSavings \<lparr> priceOnRoad = Fin 0, priceOffRoad = Fin 0,
         litersToRefuel = Fin 25, consumptionKmL = Fin 18 \<rparr>) = Fin 0
     \<and> extraKms (calculateSavings \<lparr> priceOnRoad = Fin 0, priceOffRoad = Fin 0,
         litersToRefuel = Fin 25, consumptionKmL = Fin 18 \<rparr>) = NaN"
    unfolding s by simp
  with o underflow_first underflow_second show ?thesis by blast
qed

lemma fl_00888: "fl 0.0888 = Fin (6398714350568001 / 72057594037927936)"
  using fl_eq_pos [where x = "0.0888" and e = "-4" and n = 6398714350568001]
  by simp
lemma fl_1407: "fl 14.07 = Fin (1980176461159465 / 140737488355328)"
  using fl_eq_pos [where x = "14.07" and e = 3 and n = 7920705844637860]
  by simp

text \<open>
  C8, with the figures the code gives. The record the program starts with holds the
  binary64 numbers nearest to 1.699 and 1.599. On it \<open>savingsEuro\<close> is 2.50 at two
  decimals, \<open>costPerKm\<close> is 0.0888 at four decimals, \<open>extraKms\<close> is \<open>28.1425...\<close>, which is
  28.14 at two decimals, and \<open>maxOneWayDistance\<close> is half of it, 14.07 at two decimals.
\<close>

theorem calculateSavings_example:
  "fuelData initialState = \<lparr> priceOnRoad = fl 1.699, priceOffRoad = fl 1.599,
       litersToRefuel = Fin 25, consumptionKmL = Fin 18 \<rparr>
   \<and> savingsEuro (calculateSavings (fuelData initialState)) =
       Fin (5629499534213125 / 2251799813685248)
   \<and> toFixed_num 2 (savingsEuro (calculateSavings (fuelData initialState))) = Fin 2.5
   \<and> costPerKm (calculateSavings (fuelData initialState)) =
       Fin (6401116270369265 / 72057594037927936)
   \<and> toFixed_num 4 (costPerKm (calculateSavings (fuelData initialState))) = fl 0.0888
   \<and> extraKms (calculateSavings (fuelData initialState)) =
       Fin (1980358654155649 / 70368744177664)
   \<and> toFixed_num 2 (extraKms (calculateSavings (fuelData initialState))) = fl 28.14
   \<and> maxOneWayDistance (calculateSavings (fuelData initialState)) =
       Fin (1980358654155649 / 140737488355328)
   \<and> toFixed_num 2 (maxOneWayDistance (calculateSavings (fuelData initialState))) = fl 14.07"
proof -
  have "toFixed_num 2 (Fin (5629499534213125 / 2251799813685248)) = fl 2.5"
    by (simp add: round_dp_def)
  then have 1: "toFixed_num 2 (Fin (5629499534213125 / 2251799813685248)) = Fin 2.5"
    unfolding fl_two_half by simp
  have 2: "toFixed_num 4 (Fin (6401116270369265 / 72057594037927936)) = fl 0.0888"
    by (simp add: round_dp_def)
  have 3: "toFixed_num 2 (Fin (1980358654155649 / 70368744177664)) = fl 28.14"
    by (simp add: round_dp_def)
  have 4: "toFixed_num 2 (Fin (1980358654155649 / 140737488355328)) = fl 14.07"
    by (simp add: round_dp_def)
  have 5: "fuelData initialState = \<lparr> priceOnRoad = fl 1.699, priceOffRoad = fl 1.599,
       litersToRefuel = Fin 25, consumptionKmL = Fin 18 \<rparr>"
    unfolding initialState_def AppState.select_convs by (rule refl)
  from 1 2 3 4 5 show ?thesis
    unfolding initial_results CalculationResult.select_convs by (intro conjI) simp_all
qed

text \<open>
  The claim's 28.15 is not \<open>extraKms\<close> at two decimals: the value lies below 28.143.
\<close>

theorem calculateSavings_example_counterexample:
  "extraKms (calculateSavings \<lparr> priceOnRoad = fl 1.699, priceOffRoad = fl 1.599,
       litersToRefuel = Fin 25, consumptionKmL = Fin 18 \<rparr>) =
     Fin (1980358654155649 / 70368744177664)
   \<and> (1980358654155649 / 70368744177664 :: real) < 28.143
   \<and> toFixed_num 2 (Fin (1980358654155649 / 70368744177664)) \<noteq> fl 28.15"
proof -
  have i: "\<lparr> priceOnRoad = fl 1.699, priceOffRoad = fl 1.599,
       litersToRefuel = Fin 25, consumptionKmL = Fin 18 \<rparr> = fuelData initialState"
    unfolding initialState_def AppState.select_convs by (rule refl)
  have "toFixed_num 2 (Fin (1980358654155649 / 70368744177664)) = fl 28.14"
    by (simp add: round_dp_def)
  then have t: "toFixed_num 2 (Fin (1980358654155649 / 70368744177664)) \<noteq> fl 28.15"
    unfolding fl_2814 fl_2815 by simp
  have l: "(1980358654155649 / 70368744177664 :: real) < 28.143" by simp
  from t l show ?thesis
    unfolding i initial_results CalculationResult.select_convs by simp
qed

section \<open>Properties of validation and updates\<close>

text \<open>
  C3. For every field and every number, \<open>validate\<close> returns the "invalid value" message
  for \<open>NaN\<close>, otherwise the "must be > 0" message for a value \<open>\<le> 0\<close>, otherwise, for
  \<open>priceOffRoad\<close> with a value \<open>\<ge>\<close> the record's \<open>priceOnRoad\<close>, the "must be lower than
  price A" message, and otherwise the empty message. With \<open>priceOnRoad = 2\<close>, the
  \<open>priceOffRoad\<close> value \<open>x\<close> is valid for \<open>0 < x < 2\<close> and gets the cross-field message
  for \<open>x \<ge> 2\<close>, \<open>Infinity\<close> included.
\<close>

theorem validate_rules:
  "validate d f v =
     (if isNaN v then ''Valore non valido''
      else if js_le v (Fin 0) then ''Deve essere > 0''
      else if f = PriceOffRoad \<and> js_ge v (priceOnRoad d)
           then ''Deve essere inferiore al prezzo A''
      else [])
   \<and> (priceOnRoad d = Fin 2 \<longrightarrow>
        (0 < x \<and> x < 2 \<longrightarrow> validate d PriceOffRoad (Fin x) = [])
        \<and> (2 \<le> x \<longrightarrow>
             validate d PriceOffRoad (Fin x) = ''Deve essere inferiore al prezzo A'')
        \<and> validate d PriceOffRoad PInf = ''Deve essere inferiore al prezzo A'')"
proof -
  have 1: "validate d f v =
     (if isNaN v then ''Valore non valido''
      else if js_le v (Fin 0) then ''Deve essere > 0''
      else if f = PriceOffRoad \<and> js_ge v (priceOnRoad d)
           then ''Deve essere inferiore al prezzo A''
      else [])"
    by (cases v; cases "priceOnRoad d")
      (auto simp: validate_def js_ge_def js_gt_def js_le_def js_lt_def)
  have 2: "(0 < x \<and> x < 2 \<longrightarrow> validate d PriceOffRoad (Fin x) = [])
        \<and> (2 \<le> x \<longrightarrow>
             validate d PriceOffRoad (Fin x) = ''Deve essere inferiore al prezzo A'')
        \<and> validate d PriceOffRoad PInf = ''Deve essere inferiore al prezzo A''"
    if "priceOnRoad d = Fin 2"
    using that by (auto simp: validate_def js_ge_def js_gt_def js_le_def js_lt_def)
  from 1 2 show ?thesis by blast
qed

theorem validate_rules_witness:
  "priceOnRoad \<lparr> priceOnRoad = Fin 2, priceOffRoad = fl 1.599,
       litersToRefuel = Fin 25, consumptionKmL = Fin 18 \<rparr> = Fin 2
   \<and> ((0 :: real) < 1.5 \<and> (1.5 :: real) < 2)
   \<and> validate \<lparr> priceOnRoad = Fin 2, priceOffRoad = fl 1.599,
       litersToRefuel = Fin 25, consumptionKmL = Fin 18 \<rparr> PriceOffRoad (Fin 1.5) = []
   \<and> (2 :: real) \<le> 2.5
   \<and> validate \<lparr> priceOnRoad = Fin 2, priceOffRoad = fl 1.599,
       litersToRefuel = Fin 25, consumptionKmL = Fin 18 \<rparr> PriceOffRoad (Fin 2.5) =
       ''Deve essere inferiore al prezzo A''"
proof -
  let ?d = "\<lparr> priceOnRoad = Fin 2, priceOffRoad = fl 1.599,
       litersToRefuel = Fin 25, consumptionKmL = Fin 18 \<rparr>"
  have h: "priceOnRoad ?d = Fin 2" by simp
  have a: "(0 :: real) < 1.5 \<and> (1.5 :: real) < 2" by simp
  have b: "(2 :: real) \<le> 2.5" by simp
  from h a b validate_rules [where d = ?d and x = "1.5"]
    validate_rules [where d = ?d and x = "2.5"]
  show ?thesis by blast
qed

text \<open>
  C2 fails on the code. \<open>handleUpdate\<close> does validate \<open>priceOffRoad\<close> again when
  \<open>priceOnRoad\<close> is edited, but \<open>validate\<close> compares with the \<open>priceOnRoad\<close> of the state
  the handler was created in, not with the value just entered. From the initial state
  (prices 1.699 and 1.599), entering 1.5 as \<open>priceOnRoad\<close> leaves \<open>priceOffRoad = 1.599\<close>
  above the new \<open>priceOnRoad\<close> with an empty message. In general the message after the
  edit is the cross-field one exactly when \<open>priceOffRoad\<close> is \<open>> 0\<close> and \<open>\<ge>\<close> the
  \<^emph>\<open>previous\<close> \<open>priceOnRoad\<close>.
\<close>

theorem handleUpdate_stale_price:
  "priceOnRoad (fuelData (handleUpdate initialState PriceOnRoad (Fin 1.5))) = Fin 1.5
   \<and> priceOffRoad (fuelData (handleUpdate initialState PriceOnRoad (Fin 1.5))) = fl 1.599
   \<and> js_gt (fl 1.599) (Fin 0) \<and> js_ge (fl 1.599) (Fin 1.5)
   \<and> errors (handleUpdate initialState PriceOnRoad (Fin 1.5)) PriceOffRoad = Some []
   \<and> errors (handleUpdate s PriceOnRoad v) PriceOffRoad =
       Some (validate (fuelData s) PriceOffRoad (priceOffRoad (fuelData s)))
   \<and> (errors (handleUpdate s PriceOnRoad v) PriceOffRoad =
         Some ''Deve essere inferiore al prezzo A'')
       = (js_gt (priceOffRoad (fuelData s)) (Fin 0)
          \<and> js_ge (priceOffRoad (fuelData s)) (priceOnRoad (fuelData s)))"
proof -
  have 1: "priceOnRoad (fuelData (handleUpdate initialState PriceOnRoad (Fin 1.5))) = Fin 1.5"
    by (simp add: handleUpdate_def setError_def Let_def initialState_def)
  have 2: "priceOffRoad (fuelData (handleUpdate initialState PriceOnRoad (Fin 1.5))) = fl 1.599"
    unfolding handleUpdate_def setError_def Let_def initialState_def by simp
  have 3: "js_gt (fl 1.599) (Fin 0) \<and> js_ge (fl 1.599) (Fin 1.5)"
    unfolding fl_1599 by (simp add: js_gt_def js_ge_def js_lt_def js_le_def)
  have v: "validate (fuelData initialState) PriceOffRoad (fl 1.599) = []"
    unfolding validate_def initialState_def AppState.select_convs FuelData.select_convs
      fl_1599 fl_1699
    by (simp add: js_gt_def js_ge_def js_lt_def js_le_def)
  have 5: "errors (handleUpdate s PriceOnRoad v) PriceOffRoad =
       Some (validate (fuelData s) PriceOffRoad (priceOffRoad (fuelData s)))" for s v
    by (simp add: handleUpdate_def setError_def Let_def)
  have p: "priceOffRoad (fuelData initialState) = fl 1.599"
    unfolding initialState_def by simp
  have 4: "errors (handleUpdate initialState PriceOnRoad (Fin 1.5)) PriceOffRoad = Some []"
    unfolding 5 p v by (rule refl)
  have 6: "(errors (handleUpdate s PriceOnRoad v) PriceOffRoad =
         Some ''Deve essere inferiore al prezzo A'')
       = (js_gt (priceOffRoad (fuelData s)) (Fin 0)
          \<and> js_ge (priceOffRoad (fuelData s)) (priceOnRoad (fuelData s)))"
    unfolding 5
    by (cases "priceOffRoad (fuelData s)")
      (auto simp: validate_def js_gt_def js_ge_def js_lt_def js_le_def)
  from 1 2 3 4 5 6 show ?thesis by blast
qed

section \<open>Properties of the numeric input\<close>

lemma not_digit_simps:
  "\<not> is_digit (CHR ''-'')" "\<not> is_digit (CHR ''.'')" "\<not> is_digit (CHR '','')"
  by (simp_all add: is_digit_def)

lemma dropWhile_all: "list_all P xs \<Longrightarrow> dropWhile P (xs @ ys) = dropWhile P ys"
  by (induction xs) auto

lemma dropWhile_all_Nil: "list_all P xs \<Longrightarrow> dropWhile P xs = []"
  by (induction xs) auto

lemma regex_test_tail:
  assumes "list_all is_digit d1" "sep = [] \<or> sep = ''.'' \<or> sep = '',''" "list_all is_digit d2"
  shows "(let s2 = dropWhile is_digit (d1 @ sep @ d2);
          s3 = (case s2 of [] \<Rightarrow> []
                | c # r \<Rightarrow> if c = CHR ''.'' \<or> c = CHR '','' then r else s2)
      in dropWhile is_digit s3 = [])"
proof -
  have 1: "dropWhile is_digit (d1 @ sep @ d2) = dropWhile is_digit (sep @ d2)"
    using assms(1) by (rule dropWhile_all)
  have 2: "dropWhile is_digit d2 = []"
    using assms(3) by (rule dropWhile_all_Nil)
  from assms(2) consider "sep = []" | "sep = ''.''" | "sep = '',''" by blast
  then show ?thesis
  proof cases
    case 1
    with \<open>dropWhile is_digit (d1 @ sep @ d2) = dropWhile is_digit (sep @ d2)\<close> 2
    show ?thesis by (simp add: Let_def del: dropWhile_eq_Nil_conv)
  next
    case 2
    with \<open>dropWhile is_digit (d1 @ sep @ d2) = dropWhile is_digit (sep @ d2)\<close>
    have "dropWhile is_digit (d1 @ sep @ d2) = CHR ''.'' # d2"
      by (simp add: not_digit_simps)
    with \<open>dropWhile is_digit d2 = []\<close> show ?thesis
      by (simp add: Let_def del: dropWhile_eq_Nil_conv)
  next
    case 3
    with \<open>dropWhile is_digit (d1 @ sep @ d2) = dropWhile is_digit (sep @ d2)\<close>
    have "dropWhile is_digit (d1 @ sep @ d2) = CHR '','' # d2"
      by (simp add: not_digit_simps)
    with \<open>dropWhile is_digit d2 = []\<close> show ?thesis
      by (simp add: Let_def del: dropWhile_eq_Nil_conv)
  qed
qed

lemma strip_minus_id:
  "t = [] \<or> hd t \<noteq> CHR ''-'' \<Longrightarrow>
   (case t of [] \<Rightarrow> [] | c # r \<Rightarrow> if c = CHR ''-'' then r else t) = t"
  by (cases t) auto

lemma digits_head: "list_all is_digit d \<Longrightarrow> d \<noteq> [] \<Longrightarrow> hd d \<noteq> CHR ''-''"
  by (cases d) (auto simp: not_digit_simps)


lemma pattern_spec_regex_test: "pattern_spec s \<Longrightarrow> regex_test s"
proof -
  assume "pattern_spec s"
  then obtain sg d1 sep d2 where s: "s = sg @ d1 @ sep @ d2"
    and sg: "sg = [] \<or> sg = ''-''" and d1: "list_all is_digit d1"
    and sep: "sep = [] \<or> sep = ''.'' \<or> sep = '',''" and d2: "list_all is_digit d2"
    unfolding pattern_spec_def by blast
  define t where "t = d1 @ sep @ d2"
  have strip: "(case s of [] \<Rightarrow> [] | c # r \<Rightarrow> if c = CHR ''-'' then r else s) = t"
  proof (cases "sg = []")
    case True
    have "t = [] \<or> hd t \<noteq> CHR ''-''"
    proof (cases d1)
      case Nil
      show ?thesis
      proof (cases "sep = []")
        case True
        with Nil digits_head [OF d2] show ?thesis by (auto simp: t_def)
      next
        case False
        with sep Nil show ?thesis by (auto simp: t_def)
      qed
    next
      case (Cons a as)
      with digits_head [OF d1] show ?thesis by (simp add: t_def)
    qed
    then have "(case t of [] \<Rightarrow> [] | c # r \<Rightarrow> if c = CHR ''-'' then r else t) = t"
      by (rule strip_minus_id)
    moreover from True s have "s = t" by (simp add: t_def)
    ultimately show ?thesis by (simp only:)
  next
    case False
    with sg s show ?thesis by (simp add: t_def)
  qed
  from regex_test_tail [OF d1 sep d2] show ?thesis
    unfolding regex_test_def strip t_def by (simp only: Let_def)
qed

lemma regex_test_pattern_spec: "regex_test s \<Longrightarrow> pattern_spec s"
proof -
  assume t: "regex_test s"
  define sg where "sg = (case s of [] \<Rightarrow> [] | c # r \<Rightarrow> if c = CHR ''-'' then ''-'' else [])"
  define s1 where "s1 = (case s of [] \<Rightarrow> [] | c # r \<Rightarrow> if c = CHR ''-'' then r else s)"
  define s2 where "s2 = dropWhile is_digit s1"
  define sep where "sep = (case s2 of [] \<Rightarrow> []
                | c # r \<Rightarrow> if c = CHR ''.'' \<or> c = CHR '','' then [c] else [])"
  define s3 where "s3 = (case s2 of [] \<Rightarrow> []
                | c # r \<Rightarrow> if c = CHR ''.'' \<or> c = CHR '','' then r else s2)"
  have a: "sg @ s1 = s" by (cases s) (simp_all add: sg_def s1_def)
  have b: "takeWhile is_digit s1 @ s2 = s1" by (simp add: s2_def)
  have c: "sep @ s3 = s2" by (cases s2) (simp_all add: sep_def s3_def)
  from t have "dropWhile is_digit s3 = []"
    unfolding regex_test_def Let_def s3_def s2_def s1_def .
  then have d: "list_all is_digit s3"
    by (simp add: list_all_iff)
  have e: "list_all is_digit (takeWhile is_digit s1)"
    by (auto simp: list_all_iff dest: set_takeWhileD)
  have "s = sg @ takeWhile is_digit s1 @ sep @ s3"
    by (simp only: c b a)
  moreover have "sg = [] \<or> sg = ''-''" by (cases s) (simp_all add: sg_def)
  moreover have "sep = [] \<or> sep = ''.'' \<or> sep = '',''"
    by (cases s2) (auto simp: sep_def)
  ultimately show ?thesis unfolding pattern_spec_def using d e by blast
qed

text \<open>
  C10. A text that does not match the pattern leaves the input as it was: the displayed
  text is unchanged and \<open>onChange\<close> is not called.
\<close>

theorem handleInputChange_rejects:
  "\<not> pattern_spec original \<Longrightarrow> handleInputChange inputValue original = (inputValue, None)"
proof -
  assume "\<not> pattern_spec original"
  then have "\<not> regex_test original"
    using regex_test_pattern_spec by blast
  then show ?thesis
    by (simp add: handleInputChange_def)
qed

theorem handleInputChange_rejects_witness:
  "\<not> pattern_spec ''1,5a'' \<and> handleInputChange ''1,5'' ''1,5a'' = (''1,5'', None)"
proof -
  have "\<not> regex_test ''1,5a''"
    by (simp add: regex_test_def is_digit_def)
  then have h: "\<not> pattern_spec ''1,5a''"
    using pattern_spec_regex_test by blast
  from h handleInputChange_rejects [OF h, of "''1,5''"] show ?thesis by (rule conjI)
qed

section \<open>Properties of the provincial price\<close>

lemma trim_id: "\<forall>c\<in>set xs. \<not> is_space c \<Longrightarrow> trim xs = xs"
proof -
  assume h: "\<forall>c\<in>set xs. \<not> is_space c"
  then have 1: "dropWhile is_space xs = xs"
    by (cases xs) auto
  from h have "\<forall>c\<in>set (rev xs). \<not> is_space c" by simp
  then have 2: "dropWhile is_space (rev xs) = rev xs"
    by (cases "rev xs") auto
  show ?thesis by (simp add: trim_def 1 2)
qed

lemma set_replace_first: "set (replace_first a b xs) \<subseteq> insert b (set xs)"
  by (induction xs) auto

lemma price_char_not_space: "price_char c \<Longrightarrow> \<not> is_space c"
  by (auto simp: price_char_def is_digit_def is_space_def)

lemma price_char_not_minus: "price_char c \<Longrightarrow> c \<noteq> CHR ''-''"
  by (auto simp: price_char_def is_digit_def)

lemma cleaned_eq:
  "cleaned str = replace_first (CHR '','') (CHR ''.'') (filter price_char str)
   \<and> (\<forall>c\<in>set (cleaned str). price_char c)"
proof -
  let ?f = "filter price_char str"
  let ?r = "replace_first (CHR '','') (CHR ''.'') ?f"
  have "set ?r \<subseteq> insert (CHR ''.'') (set ?f)" by (rule set_replace_first)
  then have pc: "\<forall>c\<in>set ?r. price_char c"
    by (auto simp: price_char_def)
  then have "trim ?r = ?r"
    by (intro trim_id) (auto dest: price_char_not_space)
  then have "cleaned str = ?r"
    by (simp add: cleaned_def)
  with pc show ?thesis by simp
qed

lemma parseFloat_unsigned:
  assumes "\<forall>c\<in>set s. price_char c"
  shows "isNaN (parseFloat s) \<or> parseFloat s = PInf
     \<or> (\<exists>r. parseFloat s = Fin r \<and> 0 \<le> r)"
proof -
  from assms have 1: "dropWhile is_space s = s"
    by (cases s) (auto dest: price_char_not_space)
  from assms have 2: "(case s of [] \<Rightarrow> False | c # _ \<Rightarrow> c = CHR ''-'') = False"
    by (cases s) (auto dest: price_char_not_minus)
  have 3: "fl m = PInf \<or> (\<exists>r. fl m = Fin r \<and> 0 \<le> r)" if "0 \<le> m" for m
    using fl_nonneg [OF that] by blast
  show ?thesis
    unfolding parseFloat_def 1 Let_def 2 by (simp add: zero_of_def 3)
qed

text \<open>
  C9. For every text, \<open>applyProvincialPrice\<close> parses the text left after keeping only
  digits, commas and dots and turning the first comma into a dot. What it parses is
  \<open>NaN\<close>, \<open>Infinity\<close> (a decimal too large for binary64) or a finite number \<open>\<ge> 0\<close>.
  A number becomes both \<open>priceOnRoad\<close> and \<open>priceOffRoad\<close>,
  the messages of these two fields become empty, and \<open>litersToRefuel\<close>,
  \<open>consumptionKmL\<close> and the messages of the other fields stay as they were. On \<open>NaN\<close>
  the whole state stays as it was.
\<close>

theorem applyProvincialPrice_effect:
  fixes s :: AppState and str :: string
  defines "num \<equiv> parseFloat (cleaned str)"
    and "s' \<equiv> applyProvincialPrice s str"
  shows "cleaned str = replace_first (CHR '','') (CHR ''.'') (filter price_char str)
     \<and> (isNaN num \<or> num = PInf \<or> (\<exists>r. num = Fin r \<and> 0 \<le> r))
     \<and> (\<not> isNaN num \<longrightarrow>
          priceOnRoad (fuelData s') = num \<and> priceOffRoad (fuelData s') = num
          \<and> litersToRefuel (fuelData s') = litersToRefuel (fuelData s)
          \<and> consumptionKmL (fuelData s') = consumptionKmL (fuelData s)
          \<and> errors s' PriceOnRoad = Some [] \<and> errors s' PriceOffRoad = Some []
          \<and> errors s' LitersToRefuel = errors s LitersToRefuel
          \<and> errors s' ConsumptionKmL = errors s ConsumptionKmL)
     \<and> (isNaN num \<longrightarrow> s' = s)"
proof -
  have 1: "cleaned str = replace_first (CHR '','') (CHR ''.'') (filter price_char str)"
    using cleaned_eq by blast
  have 2: "isNaN num \<or> num = PInf \<or> (\<exists>r. num = Fin r \<and> 0 \<le> r)"
    unfolding num_def using cleaned_eq by (intro parseFloat_unsigned) blast
  have 3: "priceOnRoad (fuelData s') = num \<and> priceOffRoad (fuelData s') = num
          \<and> litersToRefuel (fuelData s') = litersToRefuel (fuelData s)
          \<and> consumptionKmL (fuelData s') = consumptionKmL (fuelData s)
          \<and> errors s' PriceOnRoad = Some [] \<and> errors s' PriceOffRoad = Some []
          \<and> errors s' LitersToRefuel = errors s LitersToRefuel
          \<and> errors s' ConsumptionKmL = errors s ConsumptionKmL" if "\<not> isNaN num"
    using that by (simp add: s'_def num_def applyProvincialPrice_def Let_def)
  have 4: "s' = s" if "isNaN num"
    using that by (simp add: s'_def num_def applyProvincialPrice_def Let_def)
  from 1 2 3 4 show ?thesis by blast
qed

lemma parse_price_example: "parseFloat (cleaned ''1,789 EUR/L'') = fl 1.789"
  by (simp add: parseFloat_def cleaned_def trim_def price_char_def is_digit_def is_space_def digits_val_def digit_val_def)
lemma parse_no_price_example: "parseFloat (cleaned ''N/D'') = NaN"
  by (simp add: parseFloat_def cleaned_def trim_def price_char_def is_digit_def is_space_def digits_val_def digit_val_def)

theorem applyProvincialPrice_effect_witness:
  "\<not> isNaN (parseFloat (cleaned ''1,789 EUR/L''))
   \<and> fuelData (applyProvincialPrice initialState ''1,789 EUR/L'') =
        \<lparr> priceOnRoad = fl 1.789, priceOffRoad = fl 1.789,
          litersToRefuel = Fin 25, consumptionKmL = Fin 18 \<rparr>
   \<and> errors (applyProvincialPrice initialState ''1,789 EUR/L'') PriceOnRoad = Some []
   \<and> errors (applyProvincialPrice initialState ''1,789 EUR/L'') PriceOffRoad = Some []
   \<and> isNaN (parseFloat (cleaned ''N/D''))
   \<and> applyProvincialPrice initialState ''N/D'' = initialState"
proof -
  have a: "\<not> isNaN (parseFloat (cleaned ''1,789 EUR/L''))" by (simp add: parse_price_example)
  have b: "isNaN (parseFloat (cleaned ''N/D''))" by (simp add: parse_no_price_example)
  from a applyProvincialPrice_effect [where s = initialState and str = "''1,789 EUR/L''"]
  have c: "priceOnRoad (fuelData (applyProvincialPrice initialState ''1,789 EUR/L'')) = fl 1.789
     \<and> priceOffRoad (fuelData (applyProvincialPrice initialState ''1,789 EUR/L'')) = fl 1.789
     \<and> litersToRefuel (fuelData (applyProvincialPrice initialState ''1,789 EUR/L'')) = Fin 25
     \<and> consumptionKmL (fuelData (applyProvincialPrice initialState ''1,789 EUR/L'')) = Fin 18
     \<and> errors (applyProvincialPrice initialState ''1,789 EUR/L'') PriceOnRoad = Some []
     \<and> errors (applyProvincialPrice initialState ''1,789 EUR/L'') PriceOffRoad = Some []"
    by (simp add: parse_price_example initialState_def)
  from b applyProvincialPrice_effect [where s = initialState and str = "''N/D''"]
  have d: "applyProvincialPrice initialState ''N/D'' = initialState" by blast
  have e: "fuelData (applyProvincialPrice initialState ''1,789 EUR/L'') =
        \<lparr> priceOnRoad = fl 1.789, priceOffRoad = fl 1.789,
          litersToRefuel = Fin 25, consumptionKmL = Fin 18 \<rparr>"
    using c by (cases "fuelData (applyProvincialPrice initialState ''1,789 EUR/L'')") simp
  from a b c d e show ?thesis by blast
qed

section \<open>Properties of the press-and-hold controller\<close>

lemma stop_clears: "tracked s \<Longrightarrow> pending (stopAdjusting s) = []"
  by (auto simp: tracked_def stopAdjusting_def clearTimeout_def Let_def split: option.splits)

lemma stop_keeps:
  "nextId (stopAdjusting s) = nextId s" "emitted (stopAdjusting s) = emitted s"
  "clock (stopAdjusting s) = clock s" "valueRef (stopAdjusting s) = valueRef s"
  "timerRef (stopAdjusting s) = None" "initialDelayRef (stopAdjusting s) = None"
  by (auto simp: stopAdjusting_def clearTimeout_def Let_def split: option.splits)

lemma tracked_init: "tracked (initCtl v)"
  by (simp add: tracked_def initCtl_def)

lemma tracked_stop: "tracked s \<Longrightarrow> tracked (stopAdjusting s)"
  by (simp add: tracked_def stop_clears stop_keeps)

lemma tracked_start: "tracked s \<Longrightarrow> tracked (startAdjusting d s)"
  by (simp add: tracked_def startAdjusting_def Let_def setTimeout_def performUpdate_def
        onChange_def stop_clears [unfolded tracked_def] stop_keeps)

lemma tracked_fire:
  assumes "tracked s" "earliest (pending s) = Some t"
  shows "tracked (fire t s)"
proof -
  from assms obtain i due cb where p: "pending s = [(i, due, cb)]" and i: "i \<noteq> 0"
    by (auto simp: tracked_def)
  with assms(2) have t: "t = (i, due, cb)" by simp
  from assms(1) have n: "0 < nextId s" by (simp add: tracked_def)
  show ?thesis
    using p n unfolding t
    by (cases cb)
      (simp_all add: tracked_def fire_def Let_def setTimeout_def performUpdate_def onChange_def)
qed

lemma tracked_extern: "tracked s \<Longrightarrow> tracked (s\<lparr>valueRef := v\<rparr>)"
  by (simp add: tracked_def)

lemma tracked_wait: "tracked s \<Longrightarrow> tracked (s\<lparr>clock := t\<rparr>)"
  by (simp add: tracked_def)

lemma reachable_tracked: "reachable s \<Longrightarrow> tracked s"
  by (induction rule: reachable.induct)
    (simp_all add: tracked_init tracked_start tracked_stop tracked_fire tracked_extern
       tracked_wait)

lemma advance_reachable:
  "reachable s \<Longrightarrow> advance n till s = Some s' \<Longrightarrow> reachable s'"
proof (induction n arbitrary: s)
  case 0
  then show ?case by simp
next
  case (Suc n)
  show ?case
  proof (cases "earliest (pending s)")
    case None
    with Suc.prems show ?thesis by (auto intro: r_wait)
  next
    case (Some t)
    show ?thesis
    proof (cases "fst (snd t) \<le> till")
      case True
      from Suc.prems(1) Some have "reachable (fire t s)" by (rule r_fire)
      moreover from Suc.prems(2) Some True have "advance n till (fire t s) = Some s'"
        by simp
      ultimately show ?thesis by (rule Suc.IH)
    next
      case False
      with Some Suc.prems show ?thesis by (auto intro: r_wait)
    qed
  qed
qed


lemma start_state:
  assumes "tracked s"
  shows "startAdjusting d s =
    s\<lparr> pending := [(nextId s, clock s + 400, InitialDelayCb d)],
       nextId := nextId s + 1, timerRef := None, initialDelayRef := Some (nextId s),
       valueRef := next_value (valueRef s) d,
       emitted := emitted s @ [(clock s, next_value (valueRef s) d)] \<rparr>"
proof -
  from assms have p: "pending (stopAdjusting s) = []" by (rule stop_clears)
  have "stopAdjusting s = s\<lparr>pending := [], timerRef := None, initialDelayRef := None\<rparr>"
    using p stop_keeps [of s] by (cases s, cases "stopAdjusting s") simp
  then show ?thesis
    by (simp add: startAdjusting_def Let_def performUpdate_def onChange_def setTimeout_def
          next_value_def)
qed

lemma held_1000:
  assumes "tracked s"
  shows "\<exists>s'. advance 20 (clock s + 1000) (startAdjusting d s) = Some s'
      \<and> map fst (emitted s') = map fst (emitted s) @
           [clock s, clock s + 480, clock s + 560, clock s + 640, clock s + 720,
            clock s + 800, clock s + 880, clock s + 960]
      \<and> length (emitted s') = length (emitted s) + 8
      \<and> pending s' = [(nextId s + 8, clock s + 1040, RunCb d 80 7)]
      \<and> clock s' = clock s + 1000"
  unfolding start_state [OF assms]
  by (simp add: fire_def Let_def setTimeout_def performUpdate_def onChange_def eval_nat_numeral)


lemma release_silences:
  assumes "tracked s"
  shows "pending (stopAdjusting s) = [] \<and> emitted (stopAdjusting s) = emitted s
     \<and> (\<exists>s'. advance (Suc n) till (stopAdjusting s) = Some s' \<and> emitted s' = emitted s)"
  using stop_clears [OF assms] by (simp add: stop_keeps)

text \<open>
  C6, on the virtual clock. From any reachable state, a press held for 1000 ms hands
  exactly 8 values to the owner: one at once, none at the end of the 400 ms delay, then
  one every 80 ms from 480 ms to 960 ms; the next timeout is due at 1040 ms with 7
  repeats counted, below the threshold of 10. From any reachable state, releasing
  leaves no timeout pending, and however long the time that passes then, no value is
  handed over.
\<close>

theorem press_and_release:
  assumes "reachable s"
  shows "(\<exists>s'. advance 20 (clock s + 1000) (startAdjusting d s) = Some s'
      \<and> map fst (emitted s') = map fst (emitted s) @
           [clock s, clock s + 480, clock s + 560, clock s + 640, clock s + 720,
            clock s + 800, clock s + 880, clock s + 960]
      \<and> length (emitted s') = length (emitted s) + 8
      \<and> pending s' = [(nextId s + 8, clock s + 1040, RunCb d 80 7)]
      \<and> clock s' = clock s + 1000)
    \<and> pending (stopAdjusting s) = [] \<and> emitted (stopAdjusting s) = emitted s
    \<and> (\<exists>s'. advance (Suc n) till (stopAdjusting s) = Some s' \<and> emitted s' = emitted s)"
  using held_1000 [OF reachable_tracked [OF assms]]
    release_silences [OF reachable_tracked [OF assms]]
  by blast

theorem press_and_release_witness:
  "reachable (initCtl (Fin 1.699))
   \<and> (\<exists>s'. advance 20 1000 (startAdjusting (Fin 0.001) (initCtl (Fin 1.699))) = Some s'
        \<and> map fst (emitted s') = [0, 480, 560, 640, 720, 800, 880, 960]
        \<and> reachable s'
        \<and> pending s' \<noteq> []
        \<and> pending (stopAdjusting s') = []
        \<and> (\<exists>s''. advance 5 5000 (stopAdjusting s') = Some s'' \<and> emitted s'' = emitted s'))"
proof -
  let ?s = "initCtl (Fin 1.699)"
  have r: "reachable ?s" by (rule r_init)
  from press_and_release [OF r, of "Fin 0.001"]
  obtain s' where a: "advance 20 (clock ?s + 1000) (startAdjusting (Fin 0.001) ?s) = Some s'"
    and t: "map fst (emitted s') = map fst (emitted ?s) @
           [clock ?s, clock ?s + 480, clock ?s + 560, clock ?s + 640, clock ?s + 720,
            clock ?s + 800, clock ?s + 880, clock ?s + 960]"
    and p: "pending s' = [(nextId ?s + 8, clock ?s + 1040, RunCb (Fin 0.001) 80 7)]"
    by blast
  from r have "reachable (startAdjusting (Fin 0.001) ?s)" by (rule r_press)
  then have r': "reachable s'" using a by (rule advance_reachable)
  from press_and_release [OF r', of _ 4 5000]
  have q: "pending (stopAdjusting s') = []"
    "\<exists>s''. advance (Suc 4) 5000 (stopAdjusting s') = Some s'' \<and> emitted s'' = emitted s'"
    by blast+
  have five: "Suc 4 = 5" by simp
  from q(2) have q2: "\<exists>s''. advance 5 5000 (stopAdjusting s') = Some s'' \<and> emitted s'' = emitted s'"
    by (simp only: five)
  from a have a': "advance 20 1000 (startAdjusting (Fin 0.001) ?s) = Some s'"
    by (simp add: initCtl_def)
  from t have t': "map fst (emitted s') = [0, 480, 560, 640, 720, 800, 880, 960]"
    by (simp add: initCtl_def)
  from p have p': "pending s' \<noteq> []" by simp
  have inner: "advance 20 1000 (startAdjusting (Fin 0.001) ?s) = Some s'
        \<and> map fst (emitted s') = [0, 480, 560, 640, 720, 800, 880, 960]
        \<and> reachable s'
        \<and> pending s' \<noteq> []
        \<and> pending (stopAdjusting s') = []
        \<and> (\<exists>s''. advance 5 5000 (stopAdjusting s') = Some s'' \<and> emitted s'' = emitted s')"
    by (intro conjI) (fact a' t' r' p' q(1) q2)+
  show ?thesis
  proof (rule conjI)
    show "reachable ?s" by (rule r)
    from inner show "\<exists>s'. advance 20 1000 (startAdjusting (Fin 0.001) ?s) = Some s'
        \<and> map fst (emitted s') = [0, 480, 560, 640, 720, 800, 880, 960]
        \<and> reachable s'
        \<and> pending s' \<noteq> []
        \<and> pending (stopAdjusting s') = []
        \<and> (\<exists>s''. advance 5 5000 (stopAdjusting s') = Some s'' \<and> emitted s'' = emitted s')"
      by (rule exI)
  qed
qed


lemma scaled_near:
  fixes P m y :: real
  assumes "0 < P" "\<bar>m - y * P\<bar> \<le> 1 / 2"
  shows "\<bar>m / P - y\<bar> \<le> 1 / (2 * P)"
proof -
  have "m / P - y = (m - y * P) / P"
    using assms(1) by (simp add: field_simps)
  then have "\<bar>m / P - y\<bar> = \<bar>m - y * P\<bar> / P"
    using assms(1) by simp
  also have "\<dots> \<le> (1 / 2) / P"
    using assms by (intro divide_right_mono) simp_all
  finally show ?thesis by simp
qed

lemma floor_half_near: "\<bar>of_int \<lfloor>z + 1 / 2\<rfloor> - z\<bar> \<le> (1 / 2 :: real)"
  by linarith

lemma round_dp_near:
  assumes "\<bar>x\<bar> < 10 ^ 21"
  shows "(\<exists>n::int. round_dp k x * 10 ^ k = of_int n)
     \<and> \<bar>round_dp k x - x\<bar> \<le> 1 / (2 * 10 ^ k)"
proof (cases "x < 0")
  case True
  define m where "m = \<lfloor>(- x) * 10 ^ k + 1 / 2\<rfloor>"
  have r: "round_dp k x = - (of_int m / 10 ^ k)"
    using assms True by (simp add: round_dp_def m_def)
  have "\<bar>of_int m - (- x) * 10 ^ k\<bar> \<le> 1 / 2"
    unfolding m_def by (rule floor_half_near)
  then have "\<bar>of_int m / 10 ^ k - (- x)\<bar> \<le> 1 / (2 * 10 ^ k)"
    by (intro scaled_near) simp_all
  then have 2: "\<bar>round_dp k x - x\<bar> \<le> 1 / (2 * 10 ^ k)"
    unfolding r by linarith
  have "round_dp k x * 10 ^ k = of_int (- m)" unfolding r by simp
  with 2 show ?thesis by blast
next
  case False
  define m where "m = \<lfloor>x * 10 ^ k + 1 / 2\<rfloor>"
  have r: "round_dp k x = of_int m / 10 ^ k"
    using assms False by (simp add: round_dp_def m_def)
  have "\<bar>of_int m - x * 10 ^ k\<bar> \<le> 1 / 2"
    unfolding m_def by (rule floor_half_near)
  then have 2: "\<bar>round_dp k x - x\<bar> \<le> 1 / (2 * 10 ^ k)"
    unfolding r by (intro scaled_near) simp_all
  have "round_dp k x * 10 ^ k = of_int m" unfolding r by simp
  with 2 show ?thesis by blast
qed

lemma round_dp_neg: "x < 0 \<Longrightarrow> round_dp k x \<le> 0"
proof -
  assume x: "x < 0"
  then have "0 \<le> (- x) * 10 ^ k" by (intro mult_nonneg_nonneg) simp_all
  then have "0 \<le> (- x) * 10 ^ k + 1 / 2" by linarith
  then have "0 \<le> \<lfloor>(- x) * 10 ^ k + 1 / 2\<rfloor>" by (simp only: zero_le_floor)
  then have "0 \<le> real_of_int \<lfloor>(- x) * 10 ^ k + 1 / 2\<rfloor> / 10 ^ k" by simp
  with x show ?thesis by (simp add: round_dp_def)
qed

lemma next_value_class: "isNaN (next_value v d) \<or> nonneg_num (next_value v d)"
proof -
  let ?t = "toFixed_num 3 (js_add v d)"
  from num_cases [of ?t] consider "isNaN ?t" | "nonneg_num ?t" | "nonpos_num ?t" by blast
  then show ?thesis
  proof cases
    case 1
    then show ?thesis by (simp add: next_value_def Math_max_NaN)
  next
    case 2
    then show ?thesis by (simp add: next_value_def Math_max_nonneg)
  next
    case 3
    then show ?thesis by (simp add: next_value_def Math_max_nonpos nonneg_num_def)
  qed
qed

lemma next_value_not_negative:
  "\<not> js_lt (next_value v d) (Fin 0) \<and> next_value v d \<noteq> NZero"
  using next_value_class [of v d]
  by (cases "next_value v d") (auto simp: nonneg_num_def js_lt_def)

lemma next_value_rounded:
  assumes "js_add v d = Fin x" "\<bar>x\<bar> < 10 ^ 21"
  shows "\<exists>n::int. \<bar>of_int n / 1000 - x\<bar> \<le> 1 / 2000
      \<and> next_value v d = (if n \<le> 0 then Fin 0 else fl (of_int n / 1000))"
proof -
  from round_dp_near [OF assms(2), of 3] obtain n :: int
    where n: "round_dp 3 x * 1000 = of_int n" and near: "\<bar>round_dp 3 x - x\<bar> \<le> 1 / 2000"
    by auto
  from n have r: "round_dp 3 x = of_int n / 1000" by simp
  have t: "toFixed_num 3 (Fin x) = (if n = 0 then zero_of (x < 0) else fl (of_int n / 1000))"
    using assms(2) by (simp add: r)
  have "next_value v d = (if n \<le> 0 then Fin 0 else fl (of_int n / 1000))"
  proof (cases "n = 0")
    case True
    with t show ?thesis by (simp add: next_value_def assms(1))
  next
    case False
    show ?thesis
    proof (cases "0 < n")
      case True
      then have "nonneg_num (fl (of_int n / 1000))" by (intro fl_nonneg_num) simp
      with True t show ?thesis
        by (simp add: next_value_def assms(1) Math_max_nonneg)
    next
      case f: False
      with False have "real_of_int n / 1000 \<le> 0" by simp
      then have "nonpos_num (fl (of_int n / 1000))" by (rule fl_nonpos_num)
      with f False t show ?thesis
        by (simp add: next_value_def assms(1) Math_max_nonpos)
    qed
  qed
  with near r show ?thesis by auto
qed

lemma next_value_example: "next_value (fl 1.0005) (fl 0.001) = fl 1.001"
proof -
  have "toFixed_num 3 (Fin (4510355026811551 / 4503599627370496)) = fl 1.001"
    by (simp add: round_dp_def)
  moreover have "nonneg_num (fl 1.001)" by (intro fl_nonneg_num) simp
  ultimately show ?thesis
    unfolding next_value_def sum_example by (simp add: Math_max_nonneg)
qed

text \<open>
  C7. The immediate emission of \<open>startAdjusting\<close> and each firing of \<^verbatim>\<open>run\<close> hand over
  \<open>next_value\<close> of the current value and the step, that is
  \<^verbatim>\<open>Math.max(0, Number((current + delta).toFixed(3)))\<close>; the first timeout and
  \<open>stopAdjusting\<close> hand over nothing. For all numbers the value handed over is not
  negative, nor the negative zero. When the binary64 sum \<open>current + delta\<close> is finite
  and below \<open>10^21\<close>, the value is the sum rounded to three decimals and clamped: for the
  integer \<open>n\<close> with \<open>n / 1000\<close> within 0.0005 of the sum it is 0 when \<open>n \<le> 0\<close> and the
  binary64 number nearest to \<open>n / 1000\<close> otherwise.
\<close>

theorem reported_values:
  "emitted (startAdjusting d s) = emitted s @ [(clock s, next_value (valueRef s) d)]
   \<and> emitted (fire (i, due, RunCb d sp c) s) =
       emitted s @ [(max (clock s) due, next_value (valueRef s) d)]
   \<and> emitted (fire (i, due, InitialDelayCb d) s) = emitted s
   \<and> emitted (stopAdjusting s) = emitted s
   \<and> \<not> js_lt (next_value v d) (Fin 0) \<and> next_value v d \<noteq> NZero
   \<and> (js_add v d = Fin x \<and> \<bar>x\<bar> < 10 ^ 21 \<longrightarrow>
        (\<exists>n::int. \<bar>of_int n / 1000 - x\<bar> \<le> 1 / 2000
           \<and> next_value v d = (if n \<le> 0 then Fin 0 else fl (of_int n / 1000))))"
proof -
  have 1: "emitted (startAdjusting d s) = emitted s @ [(clock s, next_value (valueRef s) d)]"
    by (simp add: startAdjusting_def Let_def performUpdate_def onChange_def setTimeout_def
          next_value_def stop_keeps)
  have 2: "emitted (fire (i, due, RunCb d sp c) s) =
       emitted s @ [(max (clock s) due, next_value (valueRef s) d)]"
    by (simp add: fire_def Let_def performUpdate_def onChange_def setTimeout_def
          next_value_def)
  have 3: "emitted (fire (i, due, InitialDelayCb d) s) = emitted s"
    by (simp add: fire_def Let_def setTimeout_def)
  have 4: "emitted (stopAdjusting s) = emitted s" by (rule stop_keeps)
  note 5 = next_value_not_negative [of v d]
  have 6: "\<exists>n::int. \<bar>of_int n / 1000 - x\<bar> \<le> 1 / 2000
           \<and> next_value v d = (if n \<le> 0 then Fin 0 else fl (of_int n / 1000))"
    if "js_add v d = Fin x \<and> \<bar>x\<bar> < 10 ^ 21"
    using that by (intro next_value_rounded) simp_all
  from 1 2 3 4 5 6 show ?thesis by blast
qed

theorem reported_values_witness:
  "js_add (fl 1.0005) (fl 0.001) = Fin (4510355026811551 / 4503599627370496)
   \<and> \<bar>4510355026811551 / 4503599627370496 :: real\<bar> < 10 ^ 21
   \<and> (\<exists>n::int. \<bar>of_int n / 1000 - (4510355026811551 / 4503599627370496 :: real)\<bar> \<le> 1 / 2000
         \<and> next_value (fl 1.0005) (fl 0.001) = (if n \<le> 0 then Fin 0 else fl (of_int n / 1000)))
   \<and> next_value (fl 1.0005) (fl 0.001) = fl 1.001"
proof -
  have h: "js_add (fl 1.0005) (fl 0.001) = Fin (4510355026811551 / 4503599627370496)
      \<and> \<bar>4510355026811551 / 4503599627370496 :: real\<bar> < 10 ^ 21"
    unfolding sum_example by simp
  from h reported_values [where v = "fl 1.0005" and d = "fl 0.001"
      and x = "4510355026811551 / 4503599627370496"]
  have "\<exists>n::int. \<bar>of_int n / 1000 - (4510355026811551 / 4503599627370496 :: real)\<bar> \<le> 1 / 2000
         \<and> next_value (fl 1.0005) (fl 0.001) = (if n \<le> 0 then Fin 0 else fl (of_int n / 1000))"
    by blast
  with h next_value_example show ?thesis by blast
qed

section \<open>Properties of the chart series\<close>

lemma chart_loop_run:
  assumes "\<not> js_le (acc_dist st n) M"
  shows "j \<le> n \<Longrightarrow> (\<forall>k. j \<le> k \<and> k < n \<longrightarrow> js_le (acc_dist st k) M) \<Longrightarrow> n - j < fuel \<Longrightarrow>
    chart_loop fuel (acc_dist st j) M st be pts =
      Some (pts @ map (chart_point be st) [j..<n])"
proof (induction fuel arbitrary: j pts)
  case 0
  then show ?case by simp
next
  case (Suc f)
  show ?case
  proof (cases "j = n")
    case True
    with assms show ?thesis by simp
  next
    case False
    with Suc.prems have lt: "j < n" by simp
    with Suc.prems have le: "js_le (acc_dist st j) M" by simp
    from lt Suc.prems have "n - Suc j < f" by simp
    with lt Suc.prems have ih: "chart_loop f (acc_dist st (Suc j)) M st be
        (pts @ [chart_point be st j]) =
      Some ((pts @ [chart_point be st j]) @ map (chart_point be st) [Suc j..<n])"
      by (intro Suc.IH) simp_all
    from lt have "[j..<n] = j # [Suc j..<n]" by (simp add: upt_conv_Cons)
    with le ih show ?thesis by (simp add: chart_point_def Let_def)
  qed
qed

lemma chart_loop_infinite: "chart_loop n PInf PInf PInf b acc = None"
  by (induction n arbitrary: acc) (simp_all add: Let_def js_le_def js_add_def)

lemma unit_roundoff_val: "unit_roundoff = 1 / 2 ^ 53"
  by (simp add: unit_roundoff_def power_int_minus inverse_eq_divide)

lemma power_upper: "0 \<le> u \<Longrightarrow> 2 * real n * u \<le> 1 \<Longrightarrow> (1 + u) ^ n \<le> 1 + 2 * real n * (u :: real)"
proof (induction n)
  case 0
  then show ?case by simp
next
  case (Suc n)
  from Suc.prems have p: "2 * real n * u \<le> 1"
    by (smt (verit) mult_right_mono mult_left_mono of_nat_Suc)
  with Suc have ih: "(1 + u) ^ n \<le> 1 + 2 * real n * u" by simp
  from Suc.prems have "0 \<le> 1 + u" by simp
  with ih have "(1 + u) ^ n * (1 + u) \<le> (1 + 2 * real n * u) * (1 + u)"
    by (rule mult_right_mono)
  also have "\<dots> = 1 + 2 * real n * u + u + (2 * real n * u) * u" by (simp add: algebra_simps)
  also from p Suc.prems have "\<dots> \<le> 1 + 2 * real n * u + u + 1 * u"
    by (intro add_left_mono mult_right_mono)
  also have "\<dots> = 1 + 2 * real (Suc n) * u" by (simp add: algebra_simps)
  finally show ?case by (simp add: mult.commute)
qed

lemma roundoff_upper: "99 * (1 + unit_roundoff) ^ 101 < 100"
proof -
  have "(1 + unit_roundoff) ^ 101 \<le> 1 + 2 * real 101 * unit_roundoff"
    by (rule power_upper) (simp_all add: unit_roundoff_val)
  then show ?thesis by (simp add: unit_roundoff_val)
qed

lemma roundoff_lower: "100 < 101 * (1 - unit_roundoff) ^ 102"
proof -
  have "1 + real 102 * (- unit_roundoff) \<le> (1 + (- unit_roundoff)) ^ 102"
    by (rule Bernoulli_inequality) (simp add: unit_roundoff_val)
  then show ?thesis by (simp add: unit_roundoff_val)
qed

lemma step_upper:
  fixes m :: real
  assumes "0 \<le> m" "1 \<le> U" "x \<le> real k * m * U ^ Suc k" "s \<le> m * U" "r \<le> (x + s) * U"
  shows "r \<le> real (Suc k) * m * U ^ Suc (Suc k)"
proof -
  from assms(2) have "U \<le> U ^ Suc k" by (intro self_le_power) simp_all
  then have "m * U \<le> m * U ^ Suc k" using assms(1) by (rule mult_left_mono)
  with assms(3,4) have "x + s \<le> real k * m * U ^ Suc k + m * U ^ Suc k" by simp
  also have "\<dots> = real (Suc k) * m * U ^ Suc k" by (simp add: algebra_simps)
  finally have "(x + s) * U \<le> real (Suc k) * m * U ^ Suc k * U"
    using assms(2) by (intro mult_right_mono) simp_all
  with assms(5) show ?thesis by (simp add: mult_ac)
qed

lemma step_lower:
  fixes m :: real
  assumes "0 \<le> m" "0 \<le> L" "L \<le> 1" "real k * m * L ^ Suc k \<le> x" "m * L \<le> s" "(x + s) * L \<le> r"
  shows "real (Suc k) * m * L ^ Suc (Suc k) \<le> r"
proof -
  from assms(2,3) have "L ^ Suc k \<le> L ^ 1" by (intro power_decreasing) simp_all
  then have "L ^ Suc k \<le> L" by simp
  then have "m * L ^ Suc k \<le> m * L" using assms(1) by (rule mult_left_mono)
  with assms(4,5) have "real k * m * L ^ Suc k + m * L ^ Suc k \<le> x + s" by simp
  moreover have "real k * m * L ^ Suc k + m * L ^ Suc k = real (Suc k) * m * L ^ Suc k"
    by (simp add: algebra_simps)
  ultimately have "real (Suc k) * m * L ^ Suc k * L \<le> (x + s) * L"
    using assms(2) by (intro mult_right_mono) simp_all
  with assms(6) show ?thesis by (simp add: mult_ac)
qed

lemma acc_step:
  assumes m: "1 / 25 \<le> m"
    and s: "m * (1 - unit_roundoff) \<le> s" "s \<le> m * (1 + unit_roundoff)"
    and x: "acc_dist (Fin s) k = Fin x"
      "real k * m * (1 - unit_roundoff) ^ Suc k \<le> x"
      "x \<le> real k * m * (1 + unit_roundoff) ^ Suc k"
  shows "\<exists>r. real (Suc k) * m * (1 - unit_roundoff) ^ Suc (Suc k) \<le> r
     \<and> r \<le> real (Suc k) * m * (1 + unit_roundoff) ^ Suc (Suc k)
     \<and> acc_dist (Fin s) (Suc k) = (if 2 powi 1024 \<le> r then PInf else Fin r)"
proof -
  have u: "0 \<le> 1 - unit_roundoff" "1 - unit_roundoff \<le> 1" "1 \<le> 1 + unit_roundoff"
    "1 / 2 \<le> 1 - unit_roundoff"
    by (simp_all add: unit_roundoff_val)
  from m have m0: "0 \<le> m" by simp
  from m u(4) have "1 / 25 * (1 / 2) \<le> m * (1 - unit_roundoff)"
    by (intro mult_mono) simp_all
  with s(1) have s0: "1 / 50 \<le> s" by simp
  from m0 u(1) have "0 \<le> real k * m * (1 - unit_roundoff) ^ Suc k" by simp
  with x(2) have x0: "0 \<le> x" by linarith
  have "(2::real) powi (- 1022) \<le> 1 / 50"
    by (simp add: power_int_minus inverse_eq_divide)
  with s0 x0 have n: "2 powi (- 1022) \<le> x + s" by linarith
  from fl_normal_round [OF n] obtain r
    where r: "(x + s) * (1 - unit_roundoff) \<le> r" "r \<le> (x + s) * (1 + unit_roundoff)"
      "fl (x + s) = (if 2 powi 1024 \<le> r then PInf else Fin r)" by blast
  from s0 x0 have "x + s \<noteq> 0" by linarith
  then have "acc_dist (Fin s) (Suc k) = fl (x + s)"
    by (simp add: x(1) js_add_fin)
  moreover from m0 u(3) x(3) s(2) r(2)
  have "r \<le> real (Suc k) * m * (1 + unit_roundoff) ^ Suc (Suc k)" by (rule step_upper)
  moreover from m0 u(1,2) x(2) s(1) r(1)
  have "real (Suc k) * m * (1 - unit_roundoff) ^ Suc (Suc k) \<le> r" by (rule step_lower)
  ultimately show ?thesis using r(3) by auto
qed

lemma upper_below:
  fixes m :: real
  assumes "0 \<le> m" "k \<le> 99" "x \<le> real k * m * (1 + unit_roundoff) ^ Suc k"
  shows "x \<le> 100 * m"
proof -
  have u: "1 \<le> 1 + unit_roundoff" by (simp add: unit_roundoff_val)
  from assms(2) have "Suc k \<le> 101" by simp
  then have "(1 + unit_roundoff) ^ Suc k \<le> (1 + unit_roundoff) ^ 101"
    using u by (rule power_increasing)
  moreover from assms(2) have "real k \<le> 99" by simp
  moreover from u have "0 \<le> (1 + unit_roundoff) ^ Suc k" by simp
  ultimately have "real k * (1 + unit_roundoff) ^ Suc k \<le> 99 * (1 + unit_roundoff) ^ 101"
    by (intro mult_mono) simp_all
  with roundoff_upper have "real k * (1 + unit_roundoff) ^ Suc k \<le> 100" by linarith
  then have "m * (real k * (1 + unit_roundoff) ^ Suc k) \<le> m * 100"
    using assms(1) by (rule mult_left_mono)
  with assms(3) show "x \<le> 100 * m" by (simp add: mult_ac)
qed

lemma lower_above:
  fixes m :: real
  assumes "0 < m" "real 101 * m * (1 - unit_roundoff) ^ Suc 101 \<le> r"
  shows "100 * m < r"
proof -
  from roundoff_lower assms(1) have "m * 100 < m * (101 * (1 - unit_roundoff) ^ 102)"
    by (intro mult_strict_left_mono) simp_all
  with assms(2) show ?thesis by (simp add: mult_ac)
qed

lemma acc_dist_bounds:
  assumes m: "1 / 25 \<le> m" "100 * m < 2 powi 1024"
    and s: "m * (1 - unit_roundoff) \<le> s" "s \<le> m * (1 + unit_roundoff)"
  shows "k \<le> 99 \<Longrightarrow> \<exists>x. acc_dist (Fin s) k = Fin x
     \<and> real k * m * (1 - unit_roundoff) ^ Suc k \<le> x
     \<and> x \<le> real k * m * (1 + unit_roundoff) ^ Suc k"
proof (induction k)
  case 0
  then show ?case by simp
next
  case (Suc k)
  then obtain x where x: "acc_dist (Fin s) k = Fin x"
      "real k * m * (1 - unit_roundoff) ^ Suc k \<le> x"
      "x \<le> real k * m * (1 + unit_roundoff) ^ Suc k" by auto
  from acc_step [OF m(1) s x] obtain r
    where r: "real (Suc k) * m * (1 - unit_roundoff) ^ Suc (Suc k) \<le> r"
      "r \<le> real (Suc k) * m * (1 + unit_roundoff) ^ Suc (Suc k)"
      "acc_dist (Fin s) (Suc k) = (if 2 powi 1024 \<le> r then PInf else Fin r)" by blast
  from m(1) have "0 \<le> m" by simp
  then have "r \<le> 100 * m" using Suc.prems r(2) by (rule upper_below)
  with m(2) have "\<not> 2 powi 1024 \<le> r" by simp
  with r show ?case by auto
qed

lemma Math_max_five: "Math_max a (Fin 5) = Fin M \<Longrightarrow> 5 \<le> M \<and> (M = 5 \<or> a = Fin M)"
  by (cases a) (auto simp: Math_max_def js_lt_def split: if_splits)

lemma js_mul_bound: "js_mul a b = Fin M \<Longrightarrow> \<bar>M\<bar> < 2 powi 1024"
  by (auto simp: js_mul_def zero_of_def inf_of_def dest: fl_fin_bound split: if_splits)

lemma chart_loop_count:
  assumes M: "Math_max (js_mul be (fl 1.3)) (Fin 5) = Fin M" and fuel: "102 \<le> fuel"
  shows "chart_loop fuel (Fin 0) (Fin M) (js_div (Fin M) (Fin 100)) be [] =
     Some (map (chart_point be (js_div (Fin M) (Fin 100)))
       [0..<(if js_le (acc_dist (js_div (Fin M) (Fin 100)) 100) (Fin M) then 101 else 100)])"
proof -
  define m where "m = M / 100"
  from Math_max_five [OF M] have M5: "5 \<le> M" and alt: "M = 5 \<or> js_mul be (fl 1.3) = Fin M"
    by simp_all
  from alt have "\<bar>M\<bar> < 2 powi 1024"
  proof
    assume "M = 5"
    have "(2::real) ^ 3 \<le> 2 ^ 1024" by (intro power_increasing) simp_all
    with \<open>M = 5\<close> show ?thesis by simp
  next
    assume "js_mul be (fl 1.3) = Fin M"
    then show ?thesis by (rule js_mul_bound)
  qed
  with M5 have Mb: "M < 2 powi 1024" by simp
  from M5 have m: "1 / 25 \<le> m" "100 * m < 2 powi 1024" "0 < m" "100 * m = M"
    using Mb by (simp_all add: m_def)
  have small: "(2::real) powi (- 1022) \<le> 1 / 25"
    by (simp add: power_int_minus inverse_eq_divide)
  with m(1) have n: "2 powi (- 1022) \<le> m" by linarith
  have "m * (1 + unit_roundoff) \<le> m * 100"
    using m(3) by (intro mult_left_mono) (simp_all add: unit_roundoff_val)
  with m(2) have "m * (1 + unit_roundoff) < 2 powi 1024" by (simp add: mult.commute)
  from fl_normal_fin [OF n this] obtain s
    where s: "fl m = Fin s" "m * (1 - unit_roundoff) \<le> s" "s \<le> m * (1 + unit_roundoff)"
    by blast
  from M5 have st: "js_div (Fin M) (Fin 100) = Fin s"
    by (simp add: js_div_fin s(1) [unfolded m_def])
  have le: "js_le (acc_dist (Fin s) k) (Fin M)" if "k \<le> 99" for k
  proof -
    from acc_dist_bounds [OF m(1,2) s(2,3) that] obtain x
      where x: "acc_dist (Fin s) k = Fin x" "x \<le> real k * m * (1 + unit_roundoff) ^ Suc k"
      by blast
    from m(3) have "0 \<le> m" by simp
    then have "x \<le> 100 * m" using that x(2) by (rule upper_below)
    with x(1) m(4) show ?thesis by (simp add: js_le_def)
  qed
  from acc_dist_bounds [OF m(1,2) s(2,3), of 99] obtain x
    where x: "acc_dist (Fin s) 99 = Fin x"
      "real 99 * m * (1 - unit_roundoff) ^ Suc 99 \<le> x"
      "x \<le> real 99 * m * (1 + unit_roundoff) ^ Suc 99" by auto
  from acc_step [OF m(1) s(2,3) x] obtain r
    where r: "real (Suc 99) * m * (1 - unit_roundoff) ^ Suc (Suc 99) \<le> r"
      "acc_dist (Fin s) (Suc 99) = (if 2 powi 1024 \<le> r then PInf else Fin r)" by blast
  have s99: "Suc 99 = 100" by simp
  show ?thesis
  proof (cases "js_le (acc_dist (Fin s) 100) (Fin M)")
    case False
    have "\<forall>k. 0 \<le> k \<and> k < 100 \<longrightarrow> js_le (acc_dist (Fin s) k) (Fin M)"
      using le by simp
    moreover from fuel have "100 - 0 < fuel" by simp
    ultimately have "chart_loop fuel (acc_dist (Fin s) 0) (Fin M) (Fin s) be [] =
        Some ([] @ map (chart_point be (Fin s)) [0..<100])"
      using False by (intro chart_loop_run) simp_all
    then have "chart_loop fuel (Fin 0) (Fin M) (Fin s) be [] =
        Some (map (chart_point be (Fin s)) [0..<100])" by (simp del: upt_Suc)
    with False show ?thesis unfolding st by (simp del: upt_Suc)
  next
    case True
    with r(2) have fin: "acc_dist (Fin s) 100 = Fin r" "r \<le> M"
      unfolding s99 by (simp_all add: js_le_def split: if_splits)
    from r(1) have lo: "real 100 * m * (1 - unit_roundoff) ^ Suc 100 \<le> r" by simp
    have "1 \<le> 1 + unit_roundoff" by (simp add: unit_roundoff_val)
    then have "1 ^ Suc 100 \<le> (1 + unit_roundoff) ^ Suc 100" by (rule power_mono) simp
    then have "1 \<le> (1 + unit_roundoff) ^ Suc 100" by simp
    with m(3) have "100 * m * 1 \<le> 100 * m * (1 + unit_roundoff) ^ Suc 100"
      by (intro mult_left_mono) simp_all
    with fin(2) m(4) have hi: "r \<le> real 100 * m * (1 + unit_roundoff) ^ Suc 100" by simp
    from acc_step [OF m(1) s(2,3) fin(1) lo hi] obtain r'
      where r': "real (Suc 100) * m * (1 - unit_roundoff) ^ Suc (Suc 100) \<le> r'"
        "acc_dist (Fin s) (Suc 100) = (if 2 powi 1024 \<le> r' then PInf else Fin r')" by blast
    have "Suc 100 = 101" by simp
    with r' have r1: "real 101 * m * (1 - unit_roundoff) ^ Suc 101 \<le> r'"
      "acc_dist (Fin s) 101 = (if 2 powi 1024 \<le> r' then PInf else Fin r')"
      by simp_all
    from lower_above [OF m(3) r1(1)] m(4) have "M < r'" by simp
    with r1(2) have stop: "\<not> js_le (acc_dist (Fin s) 101) (Fin M)"
      by (simp add: js_le_def)
    have "js_le (acc_dist (Fin s) k) (Fin M)" if "k < 101" for k
    proof (cases "k = 100")
      case True
      with \<open>js_le (acc_dist (Fin s) 100) (Fin M)\<close> show ?thesis by simp
    next
      case False
      with that have "k \<le> 99" by simp
      then show ?thesis by (rule le)
    qed
    then have "\<forall>k. 0 \<le> k \<and> k < 101 \<longrightarrow> js_le (acc_dist (Fin s) k) (Fin M)" by simp
    moreover from fuel have "101 - 0 < fuel" by simp
    ultimately have "chart_loop fuel (acc_dist (Fin s) 0) (Fin M) (Fin s) be [] =
        Some ([] @ map (chart_point be (Fin s)) [0..<101])"
      using stop by (intro chart_loop_run) simp_all
    then have "chart_loop fuel (Fin 0) (Fin M) (Fin s) be [] =
        Some (map (chart_point be (Fin s)) [0..<101])" by (simp del: upt_Suc)
    with True show ?thesis unfolding st by (simp del: upt_Suc)
  qed
qed

lemma chartData_NaN:
  assumes "isNaN (extraKms r)" "0 < fuel"
  shows "chartData fuel r False = Some []"
proof -
  from assms(2) obtain n where "fuel = Suc n" by (cases fuel) auto
  with assms(1) show ?thesis
    by (simp add: chartData_def js_mul_def Math_max_def js_div_def js_le_def Let_def)
qed

lemma chartData_infinite:
  assumes "extraKms r = PInf"
  shows "chartData fuel r False = None"
proof -
  have "js_mul PInf (fl 1.3) = PInf"
    unfolding fl_13 by (simp add: js_mul_def inf_of_def)
  then have M: "Math_max (js_mul PInf (fl 1.3)) (Fin 5) = PInf"
    by (simp add: Math_max_def js_lt_def)
  have st: "js_div PInf (Fin 100) = PInf" by (simp add: js_div_def inf_of_def)
  show ?thesis
  proof (cases fuel)
    case 0
    then show ?thesis by (simp add: chartData_def Let_def)
  next
    case (Suc n)
    then show ?thesis
      unfolding chartData_def Let_def assms M st
      by (simp add: js_le_def js_add_def chart_loop_infinite)
  qed
qed

lemma initial_range:
  "Math_max (js_mul (Fin (1980358654155649 / 70368744177664)) (fl 1.3)) (Fin 5) = Fin (321808281300293 / 8796093022208)"
proof -
  have "js_mul (Fin (1980358654155649 / 70368744177664)) (fl 1.3) = Fin (321808281300293 / 8796093022208)"
    using fl_eq_pos [where x = "(1980358654155649 / 70368744177664) * (5854679515581645 / 4503599627370496)" and e = 5 and n = 5148932500804688]
    unfolding fl_13 by (simp add: js_mul_fin)
  then show ?thesis by (simp add: Math_max_def js_lt_def)
qed

lemma acc_dist_next:
  assumes "acc_dist (Fin s) k = Fin a" "fl (a + s) = b" "a + s \<noteq> 0" "k' = Suc k"
  shows "acc_dist (Fin s) k' = b"
  using assms by (simp add: js_add_fin)

lemma initial_step:
  "js_div (Fin (321808281300293 / 8796093022208)) (Fin 100) = Fin (6590633601030001 / 18014398509481984)"
  using fl_eq_pos [where x = "(321808281300293 / 8796093022208) / 100" and e = "-2" and n = 6590633601030001]
  by (simp add: js_div_fin)

text \<open>
  The distances the loop reaches on the initial state, sum after sum: the hundredth sum
  lies above \<open>maxRange\<close>.
\<close>

lemma initial_distances:
  "acc_dist (Fin (6590633601030001 / 18014398509481984)) 1 = Fin (6590633601030001 / 18014398509481984)"
  "acc_dist (Fin (6590633601030001 / 18014398509481984)) 99 = Fin (2548721587898325 / 70368744177664)"
  "acc_dist (Fin (6590633601030001 / 18014398509481984)) 100 = Fin (5148932500804697 / 140737488355328)"
proof -
  let ?s = "6590633601030001 / 18014398509481984 :: real"
  have a0: "acc_dist (Fin ?s) 0 = Fin 0" by simp
  have a1: "acc_dist (Fin ?s) 1 = Fin (6590633601030001 / 18014398509481984)"
  proof (rule acc_dist_next [OF a0])
    show "fl (0 + ?s) = Fin (6590633601030001 / 18014398509481984)"
      using fl_eq_pos [where x = "0 + 6590633601030001 / 18014398509481984" and e = "-2" and n = 6590633601030001]
      by simp
  qed simp_all
  have a2: "acc_dist (Fin ?s) 2 = Fin (6590633601030001 / 9007199254740992)"
  proof (rule acc_dist_next [OF a1])
    show "fl (6590633601030001 / 18014398509481984 + ?s) = Fin (6590633601030001 / 9007199254740992)"
      using fl_eq_pos [where x = "6590633601030001 / 18014398509481984 + 6590633601030001 / 18014398509481984" and e = "-1" and n = 6590633601030001]
      by simp
  qed simp_all
  have a3: "acc_dist (Fin ?s) 3 = Fin (4942975200772501 / 4503599627370496)"
  proof (rule acc_dist_next [OF a2])
    show "fl (6590633601030001 / 9007199254740992 + ?s) = Fin (4942975200772501 / 4503599627370496)"
      using fl_eq_pos [where x = "6590633601030001 / 9007199254740992 + 6590633601030001 / 18014398509481984" and e = 0 and n = 4942975200772501]
      by simp
  qed simp_all
  have a4: "acc_dist (Fin ?s) 4 = Fin (6590633601030001 / 4503599627370496)"
  proof (rule acc_dist_next [OF a3])
    show "fl (4942975200772501 / 4503599627370496 + ?s) = Fin (6590633601030001 / 4503599627370496)"
      using fl_eq_pos [where x = "4942975200772501 / 4503599627370496 + 6590633601030001 / 18014398509481984" and e = 0 and n = 6590633601030001]
      by simp
  qed simp_all
  have a5: "acc_dist (Fin ?s) 5 = Fin (8238292001287501 / 4503599627370496)"
  proof (rule acc_dist_next [OF a4])
    show "fl (6590633601030001 / 4503599627370496 + ?s) = Fin (8238292001287501 / 4503599627370496)"
      using fl_eq_pos [where x = "6590633601030001 / 4503599627370496 + 6590633601030001 / 18014398509481984" and e = 0 and n = 8238292001287501]
      by simp
  qed simp_all
  have a6: "acc_dist (Fin ?s) 6 = Fin (4942975200772501 / 2251799813685248)"
  proof (rule acc_dist_next [OF a5])
    show "fl (8238292001287501 / 4503599627370496 + ?s) = Fin (4942975200772501 / 2251799813685248)"
      using fl_eq_pos [where x = "8238292001287501 / 4503599627370496 + 6590633601030001 / 18014398509481984" and e = 1 and n = 4942975200772501]
      by simp
  qed simp_all
  have a7: "acc_dist (Fin ?s) 7 = Fin (5766804400901251 / 2251799813685248)"
  proof (rule acc_dist_next [OF a6])
    show "fl (4942975200772501 / 2251799813685248 + ?s) = Fin (5766804400901251 / 2251799813685248)"
      using fl_eq_pos [where x = "4942975200772501 / 2251799813685248 + 6590633601030001 / 18014398509481984" and e = 1 and n = 5766804400901251]
      by simp
  qed simp_all
  have a8: "acc_dist (Fin ?s) 8 = Fin (6590633601030001 / 2251799813685248)"
  proof (rule acc_dist_next [OF a7])
    show "fl (5766804400901251 / 2251799813685248 + ?s) = Fin (6590633601030001 / 2251799813685248)"
      using fl_eq_pos [where x = "5766804400901251 / 2251799813685248 + 6590633601030001 / 18014398509481984" and e = 1 and n = 6590633601030001]
      by simp
  qed simp_all
  have a9: "acc_dist (Fin ?s) 9 = Fin (7414462801158751 / 2251799813685248)"
  proof (rule acc_dist_next [OF a8])
    show "fl (6590633601030001 / 2251799813685248 + ?s) = Fin (7414462801158751 / 2251799813685248)"
      using fl_eq_pos [where x = "6590633601030001 / 2251799813685248 + 6590633601030001 / 18014398509481984" and e = 1 and n = 7414462801158751]
      by simp
  qed simp_all
  have a10: "acc_dist (Fin ?s) 10 = Fin (8238292001287501 / 2251799813685248)"
  proof (rule acc_dist_next [OF a9])
    show "fl (7414462801158751 / 2251799813685248 + ?s) = Fin (8238292001287501 / 2251799813685248)"
      using fl_eq_pos [where x = "7414462801158751 / 2251799813685248 + 6590633601030001 / 18014398509481984" and e = 1 and n = 8238292001287501]
      by simp
  qed simp_all
  have a11: "acc_dist (Fin ?s) 11 = Fin (2265530300354063 / 562949953421312)"
  proof (rule acc_dist_next [OF a10])
    show "fl (8238292001287501 / 2251799813685248 + ?s) = Fin (2265530300354063 / 562949953421312)"
      using fl_eq_pos [where x = "8238292001287501 / 2251799813685248 + 6590633601030001 / 18014398509481984" and e = 2 and n = 4531060600708126]
      by simp
  qed simp_all
  have a12: "acc_dist (Fin ?s) 12 = Fin (4942975200772501 / 1125899906842624)"
  proof (rule acc_dist_next [OF a11])
    show "fl (2265530300354063 / 562949953421312 + ?s) = Fin (4942975200772501 / 1125899906842624)"
      using fl_eq_pos [where x = "2265530300354063 / 562949953421312 + 6590633601030001 / 18014398509481984" and e = 2 and n = 4942975200772501]
      by simp
  qed simp_all
  have a13: "acc_dist (Fin ?s) 13 = Fin (1338722450209219 / 281474976710656)"
  proof (rule acc_dist_next [OF a12])
    show "fl (4942975200772501 / 1125899906842624 + ?s) = Fin (1338722450209219 / 281474976710656)"
      using fl_eq_pos [where x = "4942975200772501 / 1125899906842624 + 6590633601030001 / 18014398509481984" and e = 2 and n = 5354889800836876]
      by simp
  qed simp_all
  have a14: "acc_dist (Fin ?s) 14 = Fin (5766804400901251 / 1125899906842624)"
  proof (rule acc_dist_next [OF a13])
    show "fl (1338722450209219 / 281474976710656 + ?s) = Fin (5766804400901251 / 1125899906842624)"
      using fl_eq_pos [where x = "1338722450209219 / 281474976710656 + 6590633601030001 / 18014398509481984" and e = 2 and n = 5766804400901251]
      by simp
  qed simp_all
  have a15: "acc_dist (Fin ?s) 15 = Fin (3089359500482813 / 562949953421312)"
  proof (rule acc_dist_next [OF a14])
    show "fl (5766804400901251 / 1125899906842624 + ?s) = Fin (3089359500482813 / 562949953421312)"
      using fl_eq_pos [where x = "5766804400901251 / 1125899906842624 + 6590633601030001 / 18014398509481984" and e = 2 and n = 6178719000965626]
      by simp
  qed simp_all
  have a16: "acc_dist (Fin ?s) 16 = Fin (6590633601030001 / 1125899906842624)"
  proof (rule acc_dist_next [OF a15])
    show "fl (3089359500482813 / 562949953421312 + ?s) = Fin (6590633601030001 / 1125899906842624)"
      using fl_eq_pos [where x = "3089359500482813 / 562949953421312 + 6590633601030001 / 18014398509481984" and e = 2 and n = 6590633601030001]
      by simp
  qed simp_all
  have a17: "acc_dist (Fin ?s) 17 = Fin (875318525136797 / 140737488355328)"
  proof (rule acc_dist_next [OF a16])
    show "fl (6590633601030001 / 1125899906842624 + ?s) = Fin (875318525136797 / 140737488355328)"
      using fl_eq_pos [where x = "6590633601030001 / 1125899906842624 + 6590633601030001 / 18014398509481984" and e = 2 and n = 7002548201094376]
      by simp
  qed simp_all
  have a18: "acc_dist (Fin ?s) 18 = Fin (7414462801158751 / 1125899906842624)"
  proof (rule acc_dist_next [OF a17])
    show "fl (875318525136797 / 140737488355328 + ?s) = Fin (7414462801158751 / 1125899906842624)"
      using fl_eq_pos [where x = "875318525136797 / 140737488355328 + 6590633601030001 / 18014398509481984" and e = 2 and n = 7414462801158751]
      by simp
  qed simp_all
  have a19: "acc_dist (Fin ?s) 19 = Fin (3913188700611563 / 562949953421312)"
  proof (rule acc_dist_next [OF a18])
    show "fl (7414462801158751 / 1125899906842624 + ?s) = Fin (3913188700611563 / 562949953421312)"
      using fl_eq_pos [where x = "7414462801158751 / 1125899906842624 + 6590633601030001 / 18014398509481984" and e = 2 and n = 7826377401223126]
      by simp
  qed simp_all
  have a20: "acc_dist (Fin ?s) 20 = Fin (8238292001287501 / 1125899906842624)"
  proof (rule acc_dist_next [OF a19])
    show "fl (3913188700611563 / 562949953421312 + ?s) = Fin (8238292001287501 / 1125899906842624)"
      using fl_eq_pos [where x = "3913188700611563 / 562949953421312 + 6590633601030001 / 18014398509481984" and e = 2 and n = 8238292001287501]
      by simp
  qed simp_all
  have a21: "acc_dist (Fin ?s) 21 = Fin (2162551650337969 / 281474976710656)"
  proof (rule acc_dist_next [OF a20])
    show "fl (8238292001287501 / 1125899906842624 + ?s) = Fin (2162551650337969 / 281474976710656)"
      using fl_eq_pos [where x = "8238292001287501 / 1125899906842624 + 6590633601030001 / 18014398509481984" and e = 2 and n = 8650206601351876]
      by simp
  qed simp_all
  have a22: "acc_dist (Fin ?s) 22 = Fin (2265530300354063 / 281474976710656)"
  proof (rule acc_dist_next [OF a21])
    show "fl (2162551650337969 / 281474976710656 + ?s) = Fin (2265530300354063 / 281474976710656)"
      using fl_eq_pos [where x = "2162551650337969 / 281474976710656 + 6590633601030001 / 18014398509481984" and e = 3 and n = 4531060600708126]
      by simp
  qed simp_all
  have a23: "acc_dist (Fin ?s) 23 = Fin (2368508950370157 / 281474976710656)"
  proof (rule acc_dist_next [OF a22])
    show "fl (2265530300354063 / 281474976710656 + ?s) = Fin (2368508950370157 / 281474976710656)"
      using fl_eq_pos [where x = "2265530300354063 / 281474976710656 + 6590633601030001 / 18014398509481984" and e = 3 and n = 4737017900740314]
      by simp
  qed simp_all
  have a24: "acc_dist (Fin ?s) 24 = Fin (2471487600386251 / 281474976710656)"
  proof (rule acc_dist_next [OF a23])
    show "fl (2368508950370157 / 281474976710656 + ?s) = Fin (2471487600386251 / 281474976710656)"
      using fl_eq_pos [where x = "2368508950370157 / 281474976710656 + 6590633601030001 / 18014398509481984" and e = 3 and n = 4942975200772502]
      by simp
  qed simp_all
  have a25: "acc_dist (Fin ?s) 25 = Fin (2574466250402345 / 281474976710656)"
  proof (rule acc_dist_next [OF a24])
    show "fl (2471487600386251 / 281474976710656 + ?s) = Fin (2574466250402345 / 281474976710656)"
      using fl_eq_pos [where x = "2471487600386251 / 281474976710656 + 6590633601030001 / 18014398509481984" and e = 3 and n = 5148932500804690]
      by simp
  qed simp_all
  have a26: "acc_dist (Fin ?s) 26 = Fin (2677444900418439 / 281474976710656)"
  proof (rule acc_dist_next [OF a25])
    show "fl (2574466250402345 / 281474976710656 + ?s) = Fin (2677444900418439 / 281474976710656)"
      using fl_eq_pos [where x = "2574466250402345 / 281474976710656 + 6590633601030001 / 18014398509481984" and e = 3 and n = 5354889800836878]
      by simp
  qed simp_all
  have a27: "acc_dist (Fin ?s) 27 = Fin (2780423550434533 / 281474976710656)"
  proof (rule acc_dist_next [OF a26])
    show "fl (2677444900418439 / 281474976710656 + ?s) = Fin (2780423550434533 / 281474976710656)"
      using fl_eq_pos [where x = "2677444900418439 / 281474976710656 + 6590633601030001 / 18014398509481984" and e = 3 and n = 5560847100869066]
      by simp
  qed simp_all
  have a28: "acc_dist (Fin ?s) 28 = Fin (2883402200450627 / 281474976710656)"
  proof (rule acc_dist_next [OF a27])
    show "fl (2780423550434533 / 281474976710656 + ?s) = Fin (2883402200450627 / 281474976710656)"
      using fl_eq_pos [where x = "2780423550434533 / 281474976710656 + 6590633601030001 / 18014398509481984" and e = 3 and n = 5766804400901254]
      by simp
  qed simp_all
  have a29: "acc_dist (Fin ?s) 29 = Fin (2986380850466721 / 281474976710656)"
  proof (rule acc_dist_next [OF a28])
    show "fl (2883402200450627 / 281474976710656 + ?s) = Fin (2986380850466721 / 281474976710656)"
      using fl_eq_pos [where x = "2883402200450627 / 281474976710656 + 6590633601030001 / 18014398509481984" and e = 3 and n = 5972761700933442]
      by simp
  qed simp_all
  have a30: "acc_dist (Fin ?s) 30 = Fin (3089359500482815 / 281474976710656)"
  proof (rule acc_dist_next [OF a29])
    show "fl (2986380850466721 / 281474976710656 + ?s) = Fin (3089359500482815 / 281474976710656)"
      using fl_eq_pos [where x = "2986380850466721 / 281474976710656 + 6590633601030001 / 18014398509481984" and e = 3 and n = 6178719000965630]
      by simp
  qed simp_all
  have a31: "acc_dist (Fin ?s) 31 = Fin (3192338150498909 / 281474976710656)"
  proof (rule acc_dist_next [OF a30])
    show "fl (3089359500482815 / 281474976710656 + ?s) = Fin (3192338150498909 / 281474976710656)"
      using fl_eq_pos [where x = "3089359500482815 / 281474976710656 + 6590633601030001 / 18014398509481984" and e = 3 and n = 6384676300997818]
      by simp
  qed simp_all
  have a32: "acc_dist (Fin ?s) 32 = Fin (3295316800515003 / 281474976710656)"
  proof (rule acc_dist_next [OF a31])
    show "fl (3192338150498909 / 281474976710656 + ?s) = Fin (3295316800515003 / 281474976710656)"
      using fl_eq_pos [where x = "3192338150498909 / 281474976710656 + 6590633601030001 / 18014398509481984" and e = 3 and n = 6590633601030006]
      by simp
  qed simp_all
  have a33: "acc_dist (Fin ?s) 33 = Fin (3398295450531097 / 281474976710656)"
  proof (rule acc_dist_next [OF a32])
    show "fl (3295316800515003 / 281474976710656 + ?s) = Fin (3398295450531097 / 281474976710656)"
      using fl_eq_pos [where x = "3295316800515003 / 281474976710656 + 6590633601030001 / 18014398509481984" and e = 3 and n = 6796590901062194]
      by simp
  qed simp_all
  have a34: "acc_dist (Fin ?s) 34 = Fin (3501274100547191 / 281474976710656)"
  proof (rule acc_dist_next [OF a33])
    show "fl (3398295450531097 / 281474976710656 + ?s) = Fin (3501274100547191 / 281474976710656)"
      using fl_eq_pos [where x = "3398295450531097 / 281474976710656 + 6590633601030001 / 18014398509481984" and e = 3 and n = 7002548201094382]
      by simp
  qed simp_all
  have a35: "acc_dist (Fin ?s) 35 = Fin (3604252750563285 / 281474976710656)"
  proof (rule acc_dist_next [OF a34])
    show "fl (3501274100547191 / 281474976710656 + ?s) = Fin (3604252750563285 / 281474976710656)"
      using fl_eq_pos [where x = "3501274100547191 / 281474976710656 + 6590633601030001 / 18014398509481984" and e = 3 and n = 7208505501126570]
      by simp
  qed simp_all
  have a36: "acc_dist (Fin ?s) 36 = Fin (3707231400579379 / 281474976710656)"
  proof (rule acc_dist_next [OF a35])
    show "fl (3604252750563285 / 281474976710656 + ?s) = Fin (3707231400579379 / 281474976710656)"
      using fl_eq_pos [where x = "3604252750563285 / 281474976710656 + 6590633601030001 / 18014398509481984" and e = 3 and n = 7414462801158758]
      by simp
  qed simp_all
  have a37: "acc_dist (Fin ?s) 37 = Fin (3810210050595473 / 281474976710656)"
  proof (rule acc_dist_next [OF a36])
    show "fl (3707231400579379 / 281474976710656 + ?s) = Fin (3810210050595473 / 281474976710656)"
      using fl_eq_pos [where x = "3707231400579379 / 281474976710656 + 6590633601030001 / 18014398509481984" and e = 3 and n = 7620420101190946]
      by simp
  qed simp_all
  have a38: "acc_dist (Fin ?s) 38 = Fin (3913188700611567 / 281474976710656)"
  proof (rule acc_dist_next [OF a37])
    show "fl (3810210050595473 / 281474976710656 + ?s) = Fin (3913188700611567 / 281474976710656)"
      using fl_eq_pos [where x = "3810210050595473 / 281474976710656 + 6590633601030001 / 18014398509481984" and e = 3 and n = 7826377401223134]
      by simp
  qed simp_all
  have a39: "acc_dist (Fin ?s) 39 = Fin (4016167350627661 / 281474976710656)"
  proof (rule acc_dist_next [OF a38])
    show "fl (3913188700611567 / 281474976710656 + ?s) = Fin (4016167350627661 / 281474976710656)"
      using fl_eq_pos [where x = "3913188700611567 / 281474976710656 + 6590633601030001 / 18014398509481984" and e = 3 and n = 8032334701255322]
      by simp
  qed simp_all
  have a40: "acc_dist (Fin ?s) 40 = Fin (4119146000643755 / 281474976710656)"
  proof (rule acc_dist_next [OF a39])
    show "fl (4016167350627661 / 281474976710656 + ?s) = Fin (4119146000643755 / 281474976710656)"
      using fl_eq_pos [where x = "4016167350627661 / 281474976710656 + 6590633601030001 / 18014398509481984" and e = 3 and n = 8238292001287510]
      by simp
  qed simp_all
  have a41: "acc_dist (Fin ?s) 41 = Fin (4222124650659849 / 281474976710656)"
  proof (rule acc_dist_next [OF a40])
    show "fl (4119146000643755 / 281474976710656 + ?s) = Fin (4222124650659849 / 281474976710656)"
      using fl_eq_pos [where x = "4119146000643755 / 281474976710656 + 6590633601030001 / 18014398509481984" and e = 3 and n = 8444249301319698]
      by simp
  qed simp_all
  have a42: "acc_dist (Fin ?s) 42 = Fin (4325103300675943 / 281474976710656)"
  proof (rule acc_dist_next [OF a41])
    show "fl (4222124650659849 / 281474976710656 + ?s) = Fin (4325103300675943 / 281474976710656)"
      using fl_eq_pos [where x = "4222124650659849 / 281474976710656 + 6590633601030001 / 18014398509481984" and e = 3 and n = 8650206601351886]
      by simp
  qed simp_all
  have a43: "acc_dist (Fin ?s) 43 = Fin (4428081950692037 / 281474976710656)"
  proof (rule acc_dist_next [OF a42])
    show "fl (4325103300675943 / 281474976710656 + ?s) = Fin (4428081950692037 / 281474976710656)"
      using fl_eq_pos [where x = "4325103300675943 / 281474976710656 + 6590633601030001 / 18014398509481984" and e = 3 and n = 8856163901384074]
      by simp
  qed simp_all
  have a44: "acc_dist (Fin ?s) 44 = Fin (4531060600708131 / 281474976710656)"
  proof (rule acc_dist_next [OF a43])
    show "fl (4428081950692037 / 281474976710656 + ?s) = Fin (4531060600708131 / 281474976710656)"
      using fl_eq_pos [where x = "4428081950692037 / 281474976710656 + 6590633601030001 / 18014398509481984" and e = 4 and n = 4531060600708131]
      by simp
  qed simp_all
  have a45: "acc_dist (Fin ?s) 45 = Fin (4634039250724225 / 281474976710656)"
  proof (rule acc_dist_next [OF a44])
    show "fl (4531060600708131 / 281474976710656 + ?s) = Fin (4634039250724225 / 281474976710656)"
      using fl_eq_pos [where x = "4531060600708131 / 281474976710656 + 6590633601030001 / 18014398509481984" and e = 4 and n = 4634039250724225]
      by simp
  qed simp_all
  have a46: "acc_dist (Fin ?s) 46 = Fin (4737017900740319 / 281474976710656)"
  proof (rule acc_dist_next [OF a45])
    show "fl (4634039250724225 / 281474976710656 + ?s) = Fin (4737017900740319 / 281474976710656)"
      using fl_eq_pos [where x = "4634039250724225 / 281474976710656 + 6590633601030001 / 18014398509481984" and e = 4 and n = 4737017900740319]
      by simp
  qed simp_all
  have a47: "acc_dist (Fin ?s) 47 = Fin (4839996550756413 / 281474976710656)"
  proof (rule acc_dist_next [OF a46])
    show "fl (4737017900740319 / 281474976710656 + ?s) = Fin (4839996550756413 / 281474976710656)"
      using fl_eq_pos [where x = "4737017900740319 / 281474976710656 + 6590633601030001 / 18014398509481984" and e = 4 and n = 4839996550756413]
      by simp
  qed simp_all
  have a48: "acc_dist (Fin ?s) 48 = Fin (4942975200772507 / 281474976710656)"
  proof (rule acc_dist_next [OF a47])
    show "fl (4839996550756413 / 281474976710656 + ?s) = Fin (4942975200772507 / 281474976710656)"
      using fl_eq_pos [where x = "4839996550756413 / 281474976710656 + 6590633601030001 / 18014398509481984" and e = 4 and n = 4942975200772507]
      by simp
  qed simp_all
  have a49: "acc_dist (Fin ?s) 49 = Fin (5045953850788601 / 281474976710656)"
  proof (rule acc_dist_next [OF a48])
    show "fl (4942975200772507 / 281474976710656 + ?s) = Fin (5045953850788601 / 281474976710656)"
      using fl_eq_pos [where x = "4942975200772507 / 281474976710656 + 6590633601030001 / 18014398509481984" and e = 4 and n = 5045953850788601]
      by simp
  qed simp_all
  have a50: "acc_dist (Fin ?s) 50 = Fin (5148932500804695 / 281474976710656)"
  proof (rule acc_dist_next [OF a49])
    show "fl (5045953850788601 / 281474976710656 + ?s) = Fin (5148932500804695 / 281474976710656)"
      using fl_eq_pos [where x = "5045953850788601 / 281474976710656 + 6590633601030001 / 18014398509481984" and e = 4 and n = 5148932500804695]
      by simp
  qed simp_all
  have a51: "acc_dist (Fin ?s) 51 = Fin (5251911150820789 / 281474976710656)"
  proof (rule acc_dist_next [OF a50])
    show "fl (5148932500804695 / 281474976710656 + ?s) = Fin (5251911150820789 / 281474976710656)"
      using fl_eq_pos [where x = "5148932500804695 / 281474976710656 + 6590633601030001 / 18014398509481984" and e = 4 and n = 5251911150820789]
      by simp
  qed simp_all
  have a52: "acc_dist (Fin ?s) 52 = Fin (5354889800836883 / 281474976710656)"
  proof (rule acc_dist_next [OF a51])
    show "fl (5251911150820789 / 281474976710656 + ?s) = Fin (5354889800836883 / 281474976710656)"
      using fl_eq_pos [where x = "5251911150820789 / 281474976710656 + 6590633601030001 / 18014398509481984" and e = 4 and n = 5354889800836883]
      by simp
  qed simp_all
  have a53: "acc_dist (Fin ?s) 53 = Fin (5457868450852977 / 281474976710656)"
  proof (rule acc_dist_next [OF a52])
    show "fl (5354889800836883 / 281474976710656 + ?s) = Fin (5457868450852977 / 281474976710656)"
      using fl_eq_pos [where x = "5354889800836883 / 281474976710656 + 6590633601030001 / 18014398509481984" and e = 4 and n = 5457868450852977]
      by simp
  qed simp_all
  have a54: "acc_dist (Fin ?s) 54 = Fin (5560847100869071 / 281474976710656)"
  proof (rule acc_dist_next [OF a53])
    show "fl (5457868450852977 / 281474976710656 + ?s) = Fin (5560847100869071 / 281474976710656)"
      using fl_eq_pos [where x = "5457868450852977 / 281474976710656 + 6590633601030001 / 18014398509481984" and e = 4 and n = 5560847100869071]
      by simp
  qed simp_all
  have a55: "acc_dist (Fin ?s) 55 = Fin (5663825750885165 / 281474976710656)"
  proof (rule acc_dist_next [OF a54])
    show "fl (5560847100869071 / 281474976710656 + ?s) = Fin (5663825750885165 / 281474976710656)"
      using fl_eq_pos [where x = "5560847100869071 / 281474976710656 + 6590633601030001 / 18014398509481984" and e = 4 and n = 5663825750885165]
      by simp
  qed simp_all
  have a56: "acc_dist (Fin ?s) 56 = Fin (5766804400901259 / 281474976710656)"
  proof (rule acc_dist_next [OF a55])
    show "fl (5663825750885165 / 281474976710656 + ?s) = Fin (5766804400901259 / 281474976710656)"
      using fl_eq_pos [where x = "5663825750885165 / 281474976710656 + 6590633601030001 / 18014398509481984" and e = 4 and n = 5766804400901259]
      by simp
  qed simp_all
  have a57: "acc_dist (Fin ?s) 57 = Fin (5869783050917353 / 281474976710656)"
  proof (rule acc_dist_next [OF a56])
    show "fl (5766804400901259 / 281474976710656 + ?s) = Fin (5869783050917353 / 281474976710656)"
      using fl_eq_pos [where x = "5766804400901259 / 281474976710656 + 6590633601030001 / 18014398509481984" and e = 4 and n = 5869783050917353]
      by simp
  qed simp_all
  have a58: "acc_dist (Fin ?s) 58 = Fin (5972761700933447 / 281474976710656)"
  proof (rule acc_dist_next [OF a57])
    show "fl (5869783050917353 / 281474976710656 + ?s) = Fin (5972761700933447 / 281474976710656)"
      using fl_eq_pos [where x = "5869783050917353 / 281474976710656 + 6590633601030001 / 18014398509481984" and e = 4 and n = 5972761700933447]
      by simp
  qed simp_all
  have a59: "acc_dist (Fin ?s) 59 = Fin (6075740350949541 / 281474976710656)"
  proof (rule acc_dist_next [OF a58])
    show "fl (5972761700933447 / 281474976710656 + ?s) = Fin (6075740350949541 / 281474976710656)"
      using fl_eq_pos [where x = "5972761700933447 / 281474976710656 + 6590633601030001 / 18014398509481984" and e = 4 and n = 6075740350949541]
      by simp
  qed simp_all
  have a60: "acc_dist (Fin ?s) 60 = Fin (6178719000965635 / 281474976710656)"
  proof (rule acc_dist_next [OF a59])
    show "fl (6075740350949541 / 281474976710656 + ?s) = Fin (6178719000965635 / 281474976710656)"
      using fl_eq_pos [where x = "6075740350949541 / 281474976710656 + 6590633601030001 / 18014398509481984" and e = 4 and n = 6178719000965635]
      by simp
  qed simp_all
  have a61: "acc_dist (Fin ?s) 61 = Fin (6281697650981729 / 281474976710656)"
  proof (rule acc_dist_next [OF a60])
    show "fl (6178719000965635 / 281474976710656 + ?s) = Fin (6281697650981729 / 281474976710656)"
      using fl_eq_pos [where x = "6178719000965635 / 281474976710656 + 6590633601030001 / 18014398509481984" and e = 4 and n = 6281697650981729]
      by simp
  qed simp_all
  have a62: "acc_dist (Fin ?s) 62 = Fin (6384676300997823 / 281474976710656)"
  proof (rule acc_dist_next [OF a61])
    show "fl (6281697650981729 / 281474976710656 + ?s) = Fin (6384676300997823 / 281474976710656)"
      using fl_eq_pos [where x = "6281697650981729 / 281474976710656 + 6590633601030001 / 18014398509481984" and e = 4 and n = 6384676300997823]
      by simp
  qed simp_all
  have a63: "acc_dist (Fin ?s) 63 = Fin (6487654951013917 / 281474976710656)"
  proof (rule acc_dist_next [OF a62])
    show "fl (6384676300997823 / 281474976710656 + ?s) = Fin (6487654951013917 / 281474976710656)"
      using fl_eq_pos [where x = "6384676300997823 / 281474976710656 + 6590633601030001 / 18014398509481984" and e = 4 and n = 6487654951013917]
      by simp
  qed simp_all
  have a64: "acc_dist (Fin ?s) 64 = Fin (6590633601030011 / 281474976710656)"
  proof (rule acc_dist_next [OF a63])
    show "fl (6487654951013917 / 281474976710656 + ?s) = Fin (6590633601030011 / 281474976710656)"
      using fl_eq_pos [where x = "6487654951013917 / 281474976710656 + 6590633601030001 / 18014398509481984" and e = 4 and n = 6590633601030011]
      by simp
  qed simp_all
  have a65: "acc_dist (Fin ?s) 65 = Fin (6693612251046105 / 281474976710656)"
  proof (rule acc_dist_next [OF a64])
    show "fl (6590633601030011 / 281474976710656 + ?s) = Fin (6693612251046105 / 281474976710656)"
      using fl_eq_pos [where x = "6590633601030011 / 281474976710656 + 6590633601030001 / 18014398509481984" and e = 4 and n = 6693612251046105]
      by simp
  qed simp_all
  have a66: "acc_dist (Fin ?s) 66 = Fin (6796590901062199 / 281474976710656)"
  proof (rule acc_dist_next [OF a65])
    show "fl (6693612251046105 / 281474976710656 + ?s) = Fin (6796590901062199 / 281474976710656)"
      using fl_eq_pos [where x = "6693612251046105 / 281474976710656 + 6590633601030001 / 18014398509481984" and e = 4 and n = 6796590901062199]
      by simp
  qed simp_all
  have a67: "acc_dist (Fin ?s) 67 = Fin (6899569551078293 / 281474976710656)"
  proof (rule acc_dist_next [OF a66])
    show "fl (6796590901062199 / 281474976710656 + ?s) = Fin (6899569551078293 / 281474976710656)"
      using fl_eq_pos [where x = "6796590901062199 / 281474976710656 + 6590633601030001 / 18014398509481984" and e = 4 and n = 6899569551078293]
      by simp
  qed simp_all
  have a68: "acc_dist (Fin ?s) 68 = Fin (7002548201094387 / 281474976710656)"
  proof (rule acc_dist_next [OF a67])
    show "fl (6899569551078293 / 281474976710656 + ?s) = Fin (7002548201094387 / 281474976710656)"
      using fl_eq_pos [where x = "6899569551078293 / 281474976710656 + 6590633601030001 / 18014398509481984" and e = 4 and n = 7002548201094387]
      by simp
  qed simp_all
  have a69: "acc_dist (Fin ?s) 69 = Fin (7105526851110481 / 281474976710656)"
  proof (rule acc_dist_next [OF a68])
    show "fl (7002548201094387 / 281474976710656 + ?s) = Fin (7105526851110481 / 281474976710656)"
      using fl_eq_pos [where x = "7002548201094387 / 281474976710656 + 6590633601030001 / 18014398509481984" and e = 4 and n = 7105526851110481]
      by simp
  qed simp_all
  have a70: "acc_dist (Fin ?s) 70 = Fin (7208505501126575 / 281474976710656)"
  proof (rule acc_dist_next [OF a69])
    show "fl (7105526851110481 / 281474976710656 + ?s) = Fin (7208505501126575 / 281474976710656)"
      using fl_eq_pos [where x = "7105526851110481 / 281474976710656 + 6590633601030001 / 18014398509481984" and e = 4 and n = 7208505501126575]
      by simp
  qed simp_all
  have a71: "acc_dist (Fin ?s) 71 = Fin (7311484151142669 / 281474976710656)"
  proof (rule acc_dist_next [OF a70])
    show "fl (7208505501126575 / 281474976710656 + ?s) = Fin (7311484151142669 / 281474976710656)"
      using fl_eq_pos [where x = "7208505501126575 / 281474976710656 + 6590633601030001 / 18014398509481984" and e = 4 and n = 7311484151142669]
      by simp
  qed simp_all
  have a72: "acc_dist (Fin ?s) 72 = Fin (7414462801158763 / 281474976710656)"
  proof (rule acc_dist_next [OF a71])
    show "fl (7311484151142669 / 281474976710656 + ?s) = Fin (7414462801158763 / 281474976710656)"
      using fl_eq_pos [where x = "7311484151142669 / 281474976710656 + 6590633601030001 / 18014398509481984" and e = 4 and n = 7414462801158763]
      by simp
  qed simp_all
  have a73: "acc_dist (Fin ?s) 73 = Fin (7517441451174857 / 281474976710656)"
  proof (rule acc_dist_next [OF a72])
    show "fl (7414462801158763 / 281474976710656 + ?s) = Fin (7517441451174857 / 281474976710656)"
      using fl_eq_pos [where x = "7414462801158763 / 281474976710656 + 6590633601030001 / 18014398509481984" and e = 4 and n = 7517441451174857]
      by simp
  qed simp_all
  have a74: "acc_dist (Fin ?s) 74 = Fin (7620420101190951 / 281474976710656)"
  proof (rule acc_dist_next [OF a73])
    show "fl (7517441451174857 / 281474976710656 + ?s) = Fin (7620420101190951 / 281474976710656)"
      using fl_eq_pos [where x = "7517441451174857 / 281474976710656 + 6590633601030001 / 18014398509481984" and e = 4 and n = 7620420101190951]
      by simp
  qed simp_all
  have a75: "acc_dist (Fin ?s) 75 = Fin (7723398751207045 / 281474976710656)"
  proof (rule acc_dist_next [OF a74])
    show "fl (7620420101190951 / 281474976710656 + ?s) = Fin (7723398751207045 / 281474976710656)"
      using fl_eq_pos [where x = "7620420101190951 / 281474976710656 + 6590633601030001 / 18014398509481984" and e = 4 and n = 7723398751207045]
      by simp
  qed simp_all
  have a76: "acc_dist (Fin ?s) 76 = Fin (7826377401223139 / 281474976710656)"
  proof (rule acc_dist_next [OF a75])
    show "fl (7723398751207045 / 281474976710656 + ?s) = Fin (7826377401223139 / 281474976710656)"
      using fl_eq_pos [where x = "7723398751207045 / 281474976710656 + 6590633601030001 / 18014398509481984" and e = 4 and n = 7826377401223139]
      by simp
  qed simp_all
  have a77: "acc_dist (Fin ?s) 77 = Fin (7929356051239233 / 281474976710656)"
  proof (rule acc_dist_next [OF a76])
    show "fl (7826377401223139 / 281474976710656 + ?s) = Fin (7929356051239233 / 281474976710656)"
      using fl_eq_pos [where x = "7826377401223139 / 281474976710656 + 6590633601030001 / 18014398509481984" and e = 4 and n = 7929356051239233]
      by simp
  qed simp_all
  have a78: "acc_dist (Fin ?s) 78 = Fin (8032334701255327 / 281474976710656)"
  proof (rule acc_dist_next [OF a77])
    show "fl (7929356051239233 / 281474976710656 + ?s) = Fin (8032334701255327 / 281474976710656)"
      using fl_eq_pos [where x = "7929356051239233 / 281474976710656 + 6590633601030001 / 18014398509481984" and e = 4 and n = 8032334701255327]
      by simp
  qed simp_all
  have a79: "acc_dist (Fin ?s) 79 = Fin (8135313351271421 / 281474976710656)"
  proof (rule acc_dist_next [OF a78])
    show "fl (8032334701255327 / 281474976710656 + ?s) = Fin (8135313351271421 / 281474976710656)"
      using fl_eq_pos [where x = "8032334701255327 / 281474976710656 + 6590633601030001 / 18014398509481984" and e = 4 and n = 8135313351271421]
      by simp
  qed simp_all
  have a80: "acc_dist (Fin ?s) 80 = Fin (8238292001287515 / 281474976710656)"
  proof (rule acc_dist_next [OF a79])
    show "fl (8135313351271421 / 281474976710656 + ?s) = Fin (8238292001287515 / 281474976710656)"
      using fl_eq_pos [where x = "8135313351271421 / 281474976710656 + 6590633601030001 / 18014398509481984" and e = 4 and n = 8238292001287515]
      by simp
  qed simp_all
  have a81: "acc_dist (Fin ?s) 81 = Fin (8341270651303609 / 281474976710656)"
  proof (rule acc_dist_next [OF a80])
    show "fl (8238292001287515 / 281474976710656 + ?s) = Fin (8341270651303609 / 281474976710656)"
      using fl_eq_pos [where x = "8238292001287515 / 281474976710656 + 6590633601030001 / 18014398509481984" and e = 4 and n = 8341270651303609]
      by simp
  qed simp_all
  have a82: "acc_dist (Fin ?s) 82 = Fin (8444249301319703 / 281474976710656)"
  proof (rule acc_dist_next [OF a81])
    show "fl (8341270651303609 / 281474976710656 + ?s) = Fin (8444249301319703 / 281474976710656)"
      using fl_eq_pos [where x = "8341270651303609 / 281474976710656 + 6590633601030001 / 18014398509481984" and e = 4 and n = 8444249301319703]
      by simp
  qed simp_all
  have a83: "acc_dist (Fin ?s) 83 = Fin (8547227951335797 / 281474976710656)"
  proof (rule acc_dist_next [OF a82])
    show "fl (8444249301319703 / 281474976710656 + ?s) = Fin (8547227951335797 / 281474976710656)"
      using fl_eq_pos [where x = "8444249301319703 / 281474976710656 + 6590633601030001 / 18014398509481984" and e = 4 and n = 8547227951335797]
      by simp
  qed simp_all
  have a84: "acc_dist (Fin ?s) 84 = Fin (8650206601351891 / 281474976710656)"
  proof (rule acc_dist_next [OF a83])
    show "fl (8547227951335797 / 281474976710656 + ?s) = Fin (8650206601351891 / 281474976710656)"
      using fl_eq_pos [where x = "8547227951335797 / 281474976710656 + 6590633601030001 / 18014398509481984" and e = 4 and n = 8650206601351891]
      by simp
  qed simp_all
  have a85: "acc_dist (Fin ?s) 85 = Fin (8753185251367985 / 281474976710656)"
  proof (rule acc_dist_next [OF a84])
    show "fl (8650206601351891 / 281474976710656 + ?s) = Fin (8753185251367985 / 281474976710656)"
      using fl_eq_pos [where x = "8650206601351891 / 281474976710656 + 6590633601030001 / 18014398509481984" and e = 4 and n = 8753185251367985]
      by simp
  qed simp_all
  have a86: "acc_dist (Fin ?s) 86 = Fin (8856163901384079 / 281474976710656)"
  proof (rule acc_dist_next [OF a85])
    show "fl (8753185251367985 / 281474976710656 + ?s) = Fin (8856163901384079 / 281474976710656)"
      using fl_eq_pos [where x = "8753185251367985 / 281474976710656 + 6590633601030001 / 18014398509481984" and e = 4 and n = 8856163901384079]
      by simp
  qed simp_all
  have a87: "acc_dist (Fin ?s) 87 = Fin (8959142551400173 / 281474976710656)"
  proof (rule acc_dist_next [OF a86])
    show "fl (8856163901384079 / 281474976710656 + ?s) = Fin (8959142551400173 / 281474976710656)"
      using fl_eq_pos [where x = "8856163901384079 / 281474976710656 + 6590633601030001 / 18014398509481984" and e = 4 and n = 8959142551400173]
      by simp
  qed simp_all
  have a88: "acc_dist (Fin ?s) 88 = Fin (4531060600708133 / 140737488355328)"
  proof (rule acc_dist_next [OF a87])
    show "fl (8959142551400173 / 281474976710656 + ?s) = Fin (4531060600708133 / 140737488355328)"
      using fl_eq_pos [where x = "8959142551400173 / 281474976710656 + 6590633601030001 / 18014398509481984" and e = 5 and n = 4531060600708133]
      by simp
  qed simp_all
  have a89: "acc_dist (Fin ?s) 89 = Fin (1145637481429045 / 35184372088832)"
  proof (rule acc_dist_next [OF a88])
    show "fl (4531060600708133 / 140737488355328 + ?s) = Fin (1145637481429045 / 35184372088832)"
      using fl_eq_pos [where x = "4531060600708133 / 140737488355328 + 6590633601030001 / 18014398509481984" and e = 5 and n = 4582549925716180]
      by simp
  qed simp_all
  have a90: "acc_dist (Fin ?s) 90 = Fin (4634039250724227 / 140737488355328)"
  proof (rule acc_dist_next [OF a89])
    show "fl (1145637481429045 / 35184372088832 + ?s) = Fin (4634039250724227 / 140737488355328)"
      using fl_eq_pos [where x = "1145637481429045 / 35184372088832 + 6590633601030001 / 18014398509481984" and e = 5 and n = 4634039250724227]
      by simp
  qed simp_all
  have a91: "acc_dist (Fin ?s) 91 = Fin (2342764287866137 / 70368744177664)"
  proof (rule acc_dist_next [OF a90])
    show "fl (4634039250724227 / 140737488355328 + ?s) = Fin (2342764287866137 / 70368744177664)"
      using fl_eq_pos [where x = "4634039250724227 / 140737488355328 + 6590633601030001 / 18014398509481984" and e = 5 and n = 4685528575732274]
      by simp
  qed simp_all
  have a92: "acc_dist (Fin ?s) 92 = Fin (4737017900740321 / 140737488355328)"
  proof (rule acc_dist_next [OF a91])
    show "fl (2342764287866137 / 70368744177664 + ?s) = Fin (4737017900740321 / 140737488355328)"
      using fl_eq_pos [where x = "2342764287866137 / 70368744177664 + 6590633601030001 / 18014398509481984" and e = 5 and n = 4737017900740321]
      by simp
  qed simp_all
  have a93: "acc_dist (Fin ?s) 93 = Fin (299281701609273 / 8796093022208)"
  proof (rule acc_dist_next [OF a92])
    show "fl (4737017900740321 / 140737488355328 + ?s) = Fin (299281701609273 / 8796093022208)"
      using fl_eq_pos [where x = "4737017900740321 / 140737488355328 + 6590633601030001 / 18014398509481984" and e = 5 and n = 4788507225748368]
      by simp
  qed simp_all
  have a94: "acc_dist (Fin ?s) 94 = Fin (4839996550756415 / 140737488355328)"
  proof (rule acc_dist_next [OF a93])
    show "fl (299281701609273 / 8796093022208 + ?s) = Fin (4839996550756415 / 140737488355328)"
      using fl_eq_pos [where x = "299281701609273 / 8796093022208 + 6590633601030001 / 18014398509481984" and e = 5 and n = 4839996550756415]
      by simp
  qed simp_all
  have a95: "acc_dist (Fin ?s) 95 = Fin (2445742937882231 / 70368744177664)"
  proof (rule acc_dist_next [OF a94])
    show "fl (4839996550756415 / 140737488355328 + ?s) = Fin (2445742937882231 / 70368744177664)"
      using fl_eq_pos [where x = "4839996550756415 / 140737488355328 + 6590633601030001 / 18014398509481984" and e = 5 and n = 4891485875764462]
      by simp
  qed simp_all
  have a96: "acc_dist (Fin ?s) 96 = Fin (4942975200772509 / 140737488355328)"
  proof (rule acc_dist_next [OF a95])
    show "fl (2445742937882231 / 70368744177664 + ?s) = Fin (4942975200772509 / 140737488355328)"
      using fl_eq_pos [where x = "2445742937882231 / 70368744177664 + 6590633601030001 / 18014398509481984" and e = 5 and n = 4942975200772509]
      by simp
  qed simp_all
  have a97: "acc_dist (Fin ?s) 97 = Fin (1248616131445139 / 35184372088832)"
  proof (rule acc_dist_next [OF a96])
    show "fl (4942975200772509 / 140737488355328 + ?s) = Fin (1248616131445139 / 35184372088832)"
      using fl_eq_pos [where x = "4942975200772509 / 140737488355328 + 6590633601030001 / 18014398509481984" and e = 5 and n = 4994464525780556]
      by simp
  qed simp_all
  have a98: "acc_dist (Fin ?s) 98 = Fin (5045953850788603 / 140737488355328)"
  proof (rule acc_dist_next [OF a97])
    show "fl (1248616131445139 / 35184372088832 + ?s) = Fin (5045953850788603 / 140737488355328)"
      using fl_eq_pos [where x = "1248616131445139 / 35184372088832 + 6590633601030001 / 18014398509481984" and e = 5 and n = 5045953850788603]
      by simp
  qed simp_all
  have a99: "acc_dist (Fin ?s) 99 = Fin (2548721587898325 / 70368744177664)"
  proof (rule acc_dist_next [OF a98])
    show "fl (5045953850788603 / 140737488355328 + ?s) = Fin (2548721587898325 / 70368744177664)"
      using fl_eq_pos [where x = "5045953850788603 / 140737488355328 + 6590633601030001 / 18014398509481984" and e = 5 and n = 5097443175796650]
      by simp
  qed simp_all
  have a100: "acc_dist (Fin ?s) 100 = Fin (5148932500804697 / 140737488355328)"
  proof (rule acc_dist_next [OF a99])
    show "fl (2548721587898325 / 70368744177664 + ?s) = Fin (5148932500804697 / 140737488355328)"
      using fl_eq_pos [where x = "2548721587898325 / 70368744177664 + 6590633601030001 / 18014398509481984" and e = 5 and n = 5148932500804697]
      by simp
  qed simp_all
  from a1 a99 a100 show
    "acc_dist (Fin ?s) 1 = Fin (6590633601030001 / 18014398509481984)"
    "acc_dist (Fin ?s) 99 = Fin (2548721587898325 / 70368744177664)"
    "acc_dist (Fin ?s) 100 = Fin (5148932500804697 / 140737488355328)"
    by simp_all
qed

lemma initial_points:
  "toFixed_num 2 (Fin (6590633601030001 / 18014398509481984)) = fl 0.37"
  "toFixed_num 2 (js_sub (Fin (1980358654155649 / 70368744177664)) (Fin (6590633601030001 / 18014398509481984))) = fl 27.78"
  "toFixed_num 2 (Fin (2548721587898325 / 70368744177664)) = fl 36.22"
  "toFixed_num 2 (js_sub (Fin (1980358654155649 / 70368744177664)) (Fin (2548721587898325 / 70368744177664))) = fl (- 8.08)"
proof -
  show "toFixed_num 2 (Fin (6590633601030001 / 18014398509481984)) = fl 0.37"
    by (simp add: round_dp_def)
  show "toFixed_num 2 (Fin (2548721587898325 / 70368744177664)) = fl 36.22"
    by (simp add: round_dp_def)
  have "js_sub (Fin (1980358654155649 / 70368744177664)) (Fin (6590633601030001 / 18014398509481984)) = Fin (3909227983303251 / 140737488355328)"
    using fl_eq_pos [where x = "1980358654155649 / 70368744177664 - 6590633601030001 / 18014398509481984" and e = 4 and n = 7818455966606502]
    by (simp add: js_sub_fin)
  then show "toFixed_num 2 (js_sub (Fin (1980358654155649 / 70368744177664)) (Fin (6590633601030001 / 18014398509481984))) = fl 27.78"
    by (simp add: round_dp_def)
  have "fl (2548721587898325 / 70368744177664 - 1980358654155649 / 70368744177664) = Fin (142090733435669 / 17592186044416)"
    using fl_eq_pos [where x = "2548721587898325 / 70368744177664 - 1980358654155649 / 70368744177664" and e = 3 and n = 4546903469941408]
    by simp
  with fl_minus [of "2548721587898325 / 70368744177664 - 1980358654155649 / 70368744177664"]
  have "js_sub (Fin (1980358654155649 / 70368744177664)) (Fin (2548721587898325 / 70368744177664)) = Fin (- (142090733435669 / 17592186044416))"
    by (simp add: js_sub_fin)
  then show "toFixed_num 2 (js_sub (Fin (1980358654155649 / 70368744177664)) (Fin (2548721587898325 / 70368744177664))) = fl (- 8.08)"
    by (simp add: round_dp_def)
qed

text \<open>
  A second record: prices 2 and 1, 5 litres, 1 km per litre. Here \<open>extraKms\<close> is 5,
  \<open>maxRange\<close> is 6.5, the step is the binary64 number nearest to 0.065, and the second
  point is made from the binary64 difference \<open>5 - 0.065\<close>, which lies below 4.935.
\<close>

lemma second_results:
  "extraKms (calculateSavings \<lparr> priceOnRoad = Fin 2, priceOffRoad = Fin 1,
       litersToRefuel = Fin 5, consumptionKmL = Fin 1 \<rparr>) = Fin 5"
proof -
  have five: "fl 5 = Fin 5"
    using fl_eq_pos [where x = 5 and e = 2 and n = 5629499534213120] by simp
  have d: "js_sub (Fin 2) (Fin 1) = Fin 1" by (simp add: js_sub_fin fl_one)
  have m: "js_mul (Fin 1) (Fin 5) = Fin 5" by (simp add: js_mul_fin five)
  have c: "js_div (Fin 1) (Fin 1) = Fin 1" by (simp add: js_div_fin fl_one)
  have x: "js_div (Fin 5) (Fin 1) = Fin 5" by (simp add: js_div_fin five)
  show ?thesis
    unfolding calculateSavings_def Let_def FuelData.select_convs d m c x
    by (simp add: Math_max_def js_lt_def)
qed

lemma second_range:
  "Math_max (js_mul (Fin 5) (fl 1.3)) (Fin 5) = Fin (13 / 2)"
proof -
  have "js_mul (Fin 5) (fl 1.3) = Fin (13 / 2)"
    using fl_eq_pos [where x = "5 * (5854679515581645 / 4503599627370496)" and e = 2 and n = 7318349394477056]
    unfolding fl_13 by (simp add: js_mul_fin)
  then show ?thesis by (simp add: Math_max_def js_lt_def)
qed

lemma second_step:
  "js_div (Fin (13 / 2)) (Fin 100) = Fin (1170935903116329 / 18014398509481984)"
  using fl_eq_pos [where x = "(13 / 2) / 100" and e = "-4" and n = 4683743612465316]
  by (simp add: js_div_fin)

lemma second_point:
  "acc_dist (Fin (1170935903116329 / 18014398509481984)) 1 = Fin (1170935903116329 / 18014398509481984)"
  "toFixed_num 2 (Fin (1170935903116329 / 18014398509481984)) = fl 0.07"
  "toFixed_num 2 (js_sub (Fin 5) (Fin (1170935903116329 / 18014398509481984))) = fl 4.93"
proof -
  have "fl (1170935903116329 / 18014398509481984) = Fin (1170935903116329 / 18014398509481984)"
    using fl_eq_pos [where x = "1170935903116329 / 18014398509481984" and e = "-4" and n = 4683743612465316]
    by simp
  then have "js_add (Fin 0) (Fin (1170935903116329 / 18014398509481984)) = Fin (1170935903116329 / 18014398509481984)"
    by (simp add: js_add_fin)
  then show "acc_dist (Fin (1170935903116329 / 18014398509481984)) 1 = Fin (1170935903116329 / 18014398509481984)"
    by simp
  show "toFixed_num 2 (Fin (1170935903116329 / 18014398509481984)) = fl 0.07"
    by (simp add: round_dp_def)
  have "js_sub (Fin 5) (Fin (1170935903116329 / 18014398509481984)) = Fin (5556316040268349 / 1125899906842624)"
    using fl_eq_pos [where x = "5 - 1170935903116329 / 18014398509481984" and e = 2 and n = 5556316040268349]
    by (simp add: js_sub_fin)
  then show "toFixed_num 2 (js_sub (Fin 5) (Fin (1170935903116329 / 18014398509481984))) = fl 4.93"
    by (simp add: round_dp_def)
qed

lemma zero_price_state:
  "applyProvincialPrice initialState ''0'' =
      \<lparr> fuelData = \<lparr> priceOnRoad = Fin 0, priceOffRoad = Fin 0,
                      litersToRefuel = Fin 25, consumptionKmL = Fin 18 \<rparr>,
        errors = [PriceOnRoad \<mapsto> [], PriceOffRoad \<mapsto> []] \<rparr>"
proof -
  have p: "parseFloat (cleaned ''0'') = Fin 0"
    by (simp add: parseFloat_def cleaned_def trim_def price_char_def is_digit_def is_space_def
          digits_val_def digit_val_def zero_of_def)
  show ?thesis
    by (simp add: applyProvincialPrice_def p initialState_def Let_def)
qed

lemma zero_price_extra:
  "extraKms (calculateSavings \<lparr> priceOnRoad = Fin 0, priceOffRoad = Fin 0,
       litersToRefuel = Fin 25, consumptionKmL = Fin 18 \<rparr>) = NaN"
  by (simp add: calculateSavings_def js_sub_def js_add_def js_mul_def js_div_def
        Math_max_def js_lt_def zero_of_def Let_def)

text \<open>
  C4, as the code has it. With the validity flag false (\<open>hasErrors\<close> true) the series is
  empty. With the flag true, \<open>maxRange = Math.max(extraKms * 1.3, 5)\<close> a finite number
  \<open>M\<close> and \<open>stepVal = M / 100\<close>, the loop ends and gives one point
  \<open>(Number(d.toFixed(2)), Number((extraKms - d).toFixed(2)))\<close> for each distance \<open>d\<close> it
  reaches, where the distances are the binary64 sums \<open>0\<close>, \<open>0 + stepVal\<close>,
  \<open>(0 + stepVal) + stepVal\<close>, ...: the first hundred sums pass the test
  \<open>d <= maxRange\<close>, the sum after them fails it when the hundredth passes, and so the
  series has 101 points when the hundredth sum is \<open>\<le> maxRange\<close> and 100 points when
  rounding has carried it above. The first point has \<open>totalDist = 0\<close>. With the flag true
  and \<open>extraKms = NaN\<close> the series is empty, and with \<open>extraKms = Infinity\<close> the loop
  never ends.
\<close>

theorem chartData_series:
  "chartData fuel r True = Some []
   \<and> (Math_max (js_mul (extraKms r) (fl 1.3)) (Fin 5) = Fin M \<and> 102 \<le> fuel \<longrightarrow>
        (\<exists>n pts. n = (if js_le (acc_dist (js_div (Fin M) (Fin 100)) 100) (Fin M)
                       then 101 else 100)
           \<and> chartData fuel r False = Some pts
           \<and> pts = map (\<lambda>k. \<lparr> totalDist = toFixed_num 2 (acc_dist (js_div (Fin M) (Fin 100)) k),
                             netGain = toFixed_num 2
                               (js_sub (extraKms r) (acc_dist (js_div (Fin M) (Fin 100)) k)) \<rparr>)
                    [0..<n]
           \<and> length pts = n \<and> totalDist (hd pts) = Fin 0))
   \<and> (isNaN (extraKms r) \<and> 0 < fuel \<longrightarrow> chartData fuel r False = Some [])
   \<and> (extraKms r = PInf \<longrightarrow> chartData fuel r False = None)"
proof -
  let ?st = "js_div (Fin M) (Fin 100)"
  let ?f = "\<lambda>k. \<lparr> totalDist = toFixed_num 2 (acc_dist ?st k),
                  netGain = toFixed_num 2 (js_sub (extraKms r) (acc_dist ?st k)) \<rparr>"
  have 1: "chartData fuel r True = Some []"
    by (simp add: chartData_def)
  have 2: "\<exists>n pts. n = (if js_le (acc_dist ?st 100) (Fin M) then 101 else 100)
      \<and> chartData fuel r False = Some pts
      \<and> pts = map ?f [0..<n] \<and> length pts = n \<and> totalDist (hd pts) = Fin 0"
    if h: "Math_max (js_mul (extraKms r) (fl 1.3)) (Fin 5) = Fin M \<and> 102 \<le> fuel"
  proof -
    define n :: nat where "n = (if js_le (acc_dist ?st 100) (Fin M) then 101 else 100)"
    from h chart_loop_count [of "extraKms r" M fuel]
    have c: "chart_loop fuel (Fin 0) (Fin M) ?st (extraKms r) [] =
          Some (map (chart_point (extraKms r) ?st) [0..<n])"
      unfolding n_def by blast
    have n: "n = 100 \<or> n = 101" by (simp add: n_def)
    have f: "chart_point (extraKms r) ?st = ?f"
      by (rule ext) (simp add: chart_point_def)
    from h c have d: "chartData fuel r False = Some (map ?f [0..<n])"
      unfolding f by (simp add: chartData_def Let_def)
    from n have "[0..<n] = 0 # [1..<n]" by (auto simp: upt_conv_Cons)
    then have "hd (map ?f [0..<n]) = ?f 0" by (simp del: upt_Suc)
    then have z: "totalDist (hd (map ?f [0..<n])) = Fin 0"
      by (simp add: round_dp_def zero_of_def)
    show ?thesis
    proof (intro exI conjI)
      show "n = (if js_le (acc_dist ?st 100) (Fin M) then 101 else 100)" by (rule n_def)
      show "chartData fuel r False = Some (map ?f [0..<n])" by (rule d)
      show "map ?f [0..<n] = map ?f [0..<n]" by (rule refl)
      show "length (map ?f [0..<n]) = n" by simp
      show "totalDist (hd (map ?f [0..<n])) = Fin 0" by (rule z)
    qed
  qed
  have 3: "chartData fuel r False = Some []" if "isNaN (extraKms r) \<and> 0 < fuel"
    using that by (simp add: chartData_NaN)
  have 4: "chartData fuel r False = None" if "extraKms r = PInf"
    using that by (rule chartData_infinite)
  from 1 2 3 4 show ?thesis by blast
qed

text \<open>
  On the initial state the hundredth sum lies above \<open>maxRange\<close>: the series has 100
  points, the second \<open>(0.37, 27.78)\<close> and the last \<open>(36.22, -8.08)\<close>. On the second record
  the second point is \<open>(0.07, 4.93)\<close>.
\<close>

theorem chartData_series_witness:
  "Math_max (js_mul (extraKms (calculateSavings (fuelData initialState))) (fl 1.3)) (Fin 5) =
      Fin (321808281300293 / 8796093022208)
   \<and> (102 :: nat) \<le> 200
   \<and> (\<exists>pts. chartData 200 (calculateSavings (fuelData initialState)) False = Some pts
         \<and> length pts = 100 \<and> totalDist (hd pts) = Fin 0
         \<and> pts ! 1 = \<lparr> totalDist = fl 0.37, netGain = fl 27.78 \<rparr>
         \<and> last pts = \<lparr> totalDist = fl 36.22, netGain = fl (- 8.08) \<rparr>)
   \<and> Math_max (js_mul (extraKms (calculateSavings \<lparr> priceOnRoad = Fin 2, priceOffRoad = Fin 1,
         litersToRefuel = Fin 5, consumptionKmL = Fin 1 \<rparr>)) (fl 1.3)) (Fin 5) = Fin (13 / 2)
   \<and> (\<exists>pts. chartData 200 (calculateSavings \<lparr> priceOnRoad = Fin 2, priceOffRoad = Fin 1,
         litersToRefuel = Fin 5, consumptionKmL = Fin 1 \<rparr>) False = Some pts
         \<and> pts ! 1 = \<lparr> totalDist = fl 0.07, netGain = fl 4.93 \<rparr>)
   \<and> isNaN (extraKms (calculateSavings \<lparr> priceOnRoad = Fin 0, priceOffRoad = Fin 0,
         litersToRefuel = Fin 25, consumptionKmL = Fin 18 \<rparr>))
   \<and> (0 :: nat) < 200
   \<and> chartData 200 (calculateSavings \<lparr> priceOnRoad = Fin 0, priceOffRoad = Fin 0,
         litersToRefuel = Fin 25, consumptionKmL = Fin 18 \<rparr>) False = Some []
   \<and> extraKms (calculateSavings \<lparr> priceOnRoad = Fin 1, priceOffRoad = Fin 0,
         litersToRefuel = Fin 1, consumptionKmL = Fin 18 \<rparr>) = PInf
   \<and> chartData 200 (calculateSavings \<lparr> priceOnRoad = Fin 1, priceOffRoad = Fin 0,
         litersToRefuel = Fin 1, consumptionKmL = Fin 18 \<rparr>) False = None"
proof -
  let ?r = "calculateSavings (fuelData initialState)"
  let ?st = "js_div (Fin (321808281300293 / 8796093022208)) (Fin 100)"
  let ?f = "\<lambda>k. \<lparr> totalDist = toFixed_num 2 (acc_dist ?st k),
                  netGain = toFixed_num 2 (js_sub (extraKms ?r) (acc_dist ?st k)) \<rparr>"
  have e: "extraKms ?r = Fin (1980358654155649 / 70368744177664)"
    unfolding initial_results by simp
  have a: "Math_max (js_mul (extraKms ?r) (fl 1.3)) (Fin 5) = Fin (321808281300293 / 8796093022208)"
    unfolding e by (rule initial_range)
  have b: "isNaN (extraKms (calculateSavings \<lparr> priceOnRoad = Fin 0, priceOffRoad = Fin 0,
         litersToRefuel = Fin 25, consumptionKmL = Fin 18 \<rparr>))"
    by (simp add: zero_price_extra)
  have c: "extraKms (calculateSavings \<lparr> priceOnRoad = Fin 1, priceOffRoad = Fin 0,
         litersToRefuel = Fin 1, consumptionKmL = Fin 18 \<rparr>) = PInf"
    by (simp add: calculateSavings_def js_sub_def js_add_def js_mul_def js_div_def js_neg.simps
          Math_max_def js_lt_def zero_of_def inf_of_def Let_def fl_one)
  have f: "(102 :: nat) \<le> 200" "(0 :: nat) < 200" by simp_all
  from a f
    chartData_series [where r = ?r and M = "321808281300293 / 8796093022208" and fuel = 200]
  have "\<exists>n pts. n = (if js_le (acc_dist ?st 100) (Fin (321808281300293 / 8796093022208)) then 101 else 100)
      \<and> chartData 200 ?r False = Some pts
      \<and> pts = map ?f [0..<n] \<and> length pts = n \<and> totalDist (hd pts) = Fin 0"
    by blast
  then obtain n pts
    where n: "n = (if js_le (acc_dist ?st 100) (Fin (321808281300293 / 8796093022208)) then 101 else 100)"
      and p: "chartData 200 ?r False = Some pts" "pts = map ?f [0..<n]" "length pts = n"
        "totalDist (hd pts) = Fin 0"
    by blast
  have "\<not> js_le (acc_dist ?st 100) (Fin (321808281300293 / 8796093022208))"
    unfolding initial_step initial_distances by (simp add: js_le_def)
  with n have n100: "n = 100" by simp
  have f1: "?f 1 = \<lparr> totalDist = fl 0.37, netGain = fl 27.78 \<rparr>"
    unfolding e initial_step initial_distances initial_points by (rule refl)
  have f99: "?f 99 = \<lparr> totalDist = fl 36.22, netGain = fl (- 8.08) \<rparr>"
    unfolding e initial_step initial_distances initial_points by (rule refl)
  have "pts ! 1 = ?f 1" unfolding p(2) n100 by (subst nth_map) simp_all
  with f1 have p1: "pts ! 1 = \<lparr> totalDist = fl 0.37, netGain = fl 27.78 \<rparr>" by simp
  have "last pts = ?f (last [0..<100])"
    unfolding p(2) n100 by (rule last_map) simp
  also have "last [0..<100] = 99" by (simp add: last_upt)
  finally have "last pts = ?f 99" .
  with f99 have pl: "last pts = \<lparr> totalDist = fl 36.22, netGain = fl (- 8.08) \<rparr>" by simp
  from p(1,3,4) n100 p1 pl
  have 1: "\<exists>pts. chartData 200 ?r False = Some pts
         \<and> length pts = 100 \<and> totalDist (hd pts) = Fin 0
         \<and> pts ! 1 = \<lparr> totalDist = fl 0.37, netGain = fl 27.78 \<rparr>
         \<and> last pts = \<lparr> totalDist = fl 36.22, netGain = fl (- 8.08) \<rparr>"
    by blast
  let ?r2 = "calculateSavings \<lparr> priceOnRoad = Fin 2, priceOffRoad = Fin 1,
         litersToRefuel = Fin 5, consumptionKmL = Fin 1 \<rparr>"
  let ?st2 = "js_div (Fin (13 / 2)) (Fin 100)"
  let ?g = "\<lambda>k. \<lparr> totalDist = toFixed_num 2 (acc_dist ?st2 k),
                  netGain = toFixed_num 2 (js_sub (extraKms ?r2) (acc_dist ?st2 k)) \<rparr>"
  have a2: "Math_max (js_mul (extraKms ?r2) (fl 1.3)) (Fin 5) = Fin (13 / 2)"
    unfolding second_results by (rule second_range)
  from a2 f
    chartData_series [where r = ?r2 and M = "13 / 2" and fuel = 200]
  have "\<exists>n pts. n = (if js_le (acc_dist ?st2 100) (Fin (13 / 2)) then 101 else 100)
      \<and> chartData 200 ?r2 False = Some pts
      \<and> pts = map ?g [0..<n] \<and> length pts = n \<and> totalDist (hd pts) = Fin 0"
    by blast
  then obtain n2 pts2
    where n2: "n2 = (if js_le (acc_dist ?st2 100) (Fin (13 / 2)) then 101 else 100)"
      and p2: "chartData 200 ?r2 False = Some pts2" "pts2 = map ?g [0..<n2]"
    by blast
  from n2 have "1 < n2" by simp
  then have "pts2 ! 1 = ?g 1" unfolding p2(2) by simp
  also have "?g 1 = \<lparr> totalDist = fl 0.07, netGain = fl 4.93 \<rparr>"
    unfolding second_results second_step second_point by (rule refl)
  finally have "pts2 ! 1 = \<lparr> totalDist = fl 0.07, netGain = fl 4.93 \<rparr>" .
  with p2(1) have 4: "\<exists>pts. chartData 200 ?r2 False = Some pts
         \<and> pts ! 1 = \<lparr> totalDist = fl 0.07, netGain = fl 4.93 \<rparr>"
    by blast
  from b f
    chartData_series [where r = "calculateSavings \<lparr> priceOnRoad = Fin 0,
      priceOffRoad = Fin 0, litersToRefuel = Fin 25, consumptionKmL = Fin 18 \<rparr>"
      and fuel = 200]
  have 2: "chartData 200 (calculateSavings \<lparr> priceOnRoad = Fin 0, priceOffRoad = Fin 0,
         litersToRefuel = Fin 25, consumptionKmL = Fin 18 \<rparr>) False = Some []"
    by blast
  from c
    chartData_series [where r = "calculateSavings \<lparr> priceOnRoad = Fin 1,
      priceOffRoad = Fin 0, litersToRefuel = Fin 1, consumptionKmL = Fin 18 \<rparr>"
      and fuel = 200]
  have 3: "chartData 200 (calculateSavings \<lparr> priceOnRoad = Fin 1, priceOffRoad = Fin 0,
         litersToRefuel = Fin 1, consumptionKmL = Fin 18 \<rparr>) False = None"
    by blast
  from a a2 b c f 1 2 3 4 show ?thesis by blast
qed

text \<open>
  The series can be empty with the validity flag true. Applying the provincial price
  \<open>0\<close> to the initial state sets both prices to 0 and empties their messages, so no
  field has a message; \<open>extraKms\<close> is then \<open>0 / 0 = NaN\<close>, and the loop makes no round.
\<close>

theorem chartData_series_counterexample:
  "hasErrors (errors (applyProvincialPrice initialState ''0'')) = False
   \<and> extraKms (calculateSavings (fuelData (applyProvincialPrice initialState ''0''))) = NaN
   \<and> chartData 200 (calculateSavings (fuelData (applyProvincialPrice initialState ''0'')))
        (hasErrors (errors (applyProvincialPrice initialState ''0''))) = Some []"
proof -
  have h: "hasErrors [PriceOnRoad \<mapsto> [], PriceOffRoad \<mapsto> []] = False"
    by (simp add: hasErrors_def)
  have "isNaN (extraKms (calculateSavings \<lparr> priceOnRoad = Fin 0, priceOffRoad = Fin 0,
       litersToRefuel = Fin 25, consumptionKmL = Fin 18 \<rparr>))"
    by (simp add: zero_price_extra)
  then have c: "chartData 200 (calculateSavings \<lparr> priceOnRoad = Fin 0, priceOffRoad = Fin 0,
       litersToRefuel = Fin 25, consumptionKmL = Fin 18 \<rparr>) False = Some []"
    by (rule chartData_NaN) simp
  from h c zero_price_extra show ?thesis
    unfolding zero_price_state AppState.select_convs by simp
qed

end
